theory Spec2Isabelle
  imports Main
begin

section \<open>Python values\<close>

text \<open>
  The values that travel as messages: what \<open>json.loads\<close> produces and
  \<open>json.dumps\<close> accepts. A float is kept as its literal text; nothing here computes
  with one.
\<close>

datatype pyval =
    PNone
  | PBool bool
  | PInt int
  | PFloat string
  | PStr string
  | PList "pyval list"
  | PDict "(string \<times> pyval) list"

section \<open>The resilient websocket channel (piker/data/_web_bs.py, class NoBsWs)\<close>

text \<open>
  Exceptions of the source. The first five are the members of \<open>NoBsWs.recon_errors\<close>;
  \<open>OtherError\<close> stands for any exception that no handler of the module names.
\<close>

datatype exn =
    ConnectionClosed
  | DisconnectionTimeout
  | ConnectionRejected
  | HandshakeError
  | ConnectionTimeout
  | RuntimeError
  | AssertionError
  | AttributeError
  | TypeError
  | KeyError
  | Exception string
  | OtherError string

definition recon_errors :: "exn list" where
  "recon_errors =
     [ConnectionClosed, DisconnectionTimeout, ConnectionRejected, HandshakeError,
      ConnectionTimeout]"

text \<open>
  What a call does: it returns a value, it raises, or it stays suspended in an
  \<open>await\<close> because the peer and the network produce nothing more.
\<close>

datatype 'a outcome = Returns 'a | Raised exn | Blocked

text \<open>
  Everything the channel does to the outside world, in order. \<open>Sleep n\<close> is
  \<open>trio.sleep\<close> of \<open>n\<close> milliseconds (the source sleeps 0.5 seconds);
  \<open>Log_error e i\<close> is the line "connection bail with type(err)...retry attempt i".
\<close>

datatype action =
    Aclose
  | Sleep nat
  | Open_ws
  | Enter_fixture
  | Send_message string
  | Get_message
  | Log_info
  | Log_error exn nat
  | Log_exception
  | Log_warning string

text \<open>
  The state of one \<open>NoBsWs\<close> together with its environment. The environment is a
  script per primitive: the outcomes of the successive calls of \<open>stack.aclose()\<close>,
  \<open>open_websocket_url\<close>, entering the fixture (\<open>Inr True\<close>: it yields None,
  \<open>Inr False\<close>: it yields something else), \<open>send_message\<close> and \<open>get_message\<close>.
  A primitive whose script is empty never completes. \<open>has_ws\<close> is
  \<open>self._ws is not None\<close>.
\<close>

record ws_state =
  closes :: "exn option list"
  opens :: "exn option list"
  fixtures :: "(exn + bool) list"
  sends :: "exn option list"
  recvs :: "(exn + string) list"
  trace :: "action list"
  has_ws :: bool

text \<open>The first loop of \<open>_connect\<close>: close the exit stack until it closes cleanly.\<close>

function close_loop :: "ws_state \<Rightarrow> unit outcome \<times> ws_state" where
  "close_loop s =
     (case closes s of
        [] \<Rightarrow> (Blocked, s)
      | r # rs \<Rightarrow>
          (case r of
             None \<Rightarrow> (Returns (), s\<lparr>closes := rs, trace := trace s @ [Aclose]\<rparr>)
           | Some e \<Rightarrow>
               if e = DisconnectionTimeout \<or> e = RuntimeError
               then close_loop (s\<lparr>closes := rs, trace := trace s @ [Aclose, Sleep 500]\<rparr>)
               else (Raised e, s\<lparr>closes := rs, trace := trace s @ [Aclose]\<rparr>)))"
  by pat_completeness auto

text \<open>
  The \<open>for i in range(tries)\<close> loop of \<open>_connect\<close> with its \<open>else\<close> branch;
  \<open>fx\<close> is \<open>self.fixture is not None\<close>. With no error recorded,
  \<open>raise last_err\<close> raises None, which is a TypeError.
\<close>

function attempts :: "bool \<Rightarrow> int \<Rightarrow> nat \<Rightarrow> exn option \<Rightarrow> ws_state \<Rightarrow> unit outcome \<times> ws_state" where
  "attempts fx tries i last_err s =
     (if int i < tries then
        (case opens s of
           [] \<Rightarrow> (Blocked, s)
         | r # rs \<Rightarrow>
             (case r of
                Some e \<Rightarrow>
                  if e \<in> set recon_errors
                  then attempts fx tries (Suc i) (Some e)
                         (s\<lparr>opens := rs, trace := trace s @ [Open_ws, Log_error e i, Sleep 500]\<rparr>)
                  else (Raised e, s\<lparr>opens := rs, trace := trace s @ [Open_ws]\<rparr>)
              | None \<Rightarrow>
                  if fx then
                    (case fixtures s of
                       [] \<Rightarrow> (Blocked, s\<lparr>opens := rs, trace := trace s @ [Open_ws], has_ws := True\<rparr>)
                     | f # fs \<Rightarrow>
                         (case f of
                            Inl e \<Rightarrow>
                              if e \<in> set recon_errors
                              then attempts fx tries (Suc i) (Some e)
                                     (s\<lparr>opens := rs, fixtures := fs,
                                        trace := trace s @ [Open_ws, Enter_fixture, Log_error e i, Sleep 500],
                                        has_ws := True\<rparr>)
                              else (Raised e,
                                    s\<lparr>opens := rs, fixtures := fs,
                                      trace := trace s @ [Open_ws, Enter_fixture], has_ws := True\<rparr>)
                          | Inr ret_is_None \<Rightarrow>
                              if ret_is_None
                              then (Returns (),
                                    s\<lparr>opens := rs, fixtures := fs,
                                      trace := trace s @ [Open_ws, Enter_fixture, Log_info],
                                      has_ws := True\<rparr>)
                              else (Raised AssertionError,
                                    s\<lparr>opens := rs, fixtures := fs,
                                      trace := trace s @ [Open_ws, Enter_fixture], has_ws := True\<rparr>)))
                  else (Returns (),
                        s\<lparr>opens := rs, trace := trace s @ [Open_ws, Log_info], has_ws := True\<rparr>)))
      else
        (case last_err of
           None \<Rightarrow> (Raised TypeError, s\<lparr>trace := trace s @ [Log_exception]\<rparr>)
         | Some e \<Rightarrow> (Raised e, s\<lparr>trace := trace s @ [Log_exception]\<rparr>)))"
  by pat_completeness auto

text \<open>\<open>NoBsWs._connect(tries)\<close>; the source's default is \<open>tries = 1000\<close>.\<close>

definition connect :: "bool \<Rightarrow> int \<Rightarrow> ws_state \<Rightarrow> unit outcome \<times> ws_state" where
  "connect fx tries s =
     (case close_loop s of
        (Returns u, s1) \<Rightarrow> attempts fx tries 0 None s1
      | (Raised e, s1) \<Rightarrow> (Raised e, s1)
      | (Blocked, s1) \<Rightarrow> (Blocked, s1))"

text \<open>
  \<open>NoBsWs.send_msg\<close>. \<open>dumps\<close> is \<open>json.dumps\<close>, a parameter: the standard
  library is not part of the repository. The attribute \<open>self._ws.send_message\<close> is
  looked up before the argument is serialised; both happen inside the \<open>try\<close>.
\<close>

function send_msg :: "bool \<Rightarrow> (pyval \<Rightarrow> exn + string) \<Rightarrow> pyval \<Rightarrow> ws_state \<Rightarrow> unit outcome \<times> ws_state" where
  "send_msg fx dumps data s =
     (if \<not> has_ws s then (Raised AttributeError, s)
      else
        (case dumps data of
           Inl e \<Rightarrow>
             if e \<in> set recon_errors then
               (case connect fx 1000 s of
                  (Returns u, s1) \<Rightarrow> send_msg fx dumps data s1
                | (Raised e1, s1) \<Rightarrow> (Raised e1, s1)
                | (Blocked, s1) \<Rightarrow> (Blocked, s1))
             else (Raised e, s)
         | Inr text \<Rightarrow>
             (case sends s of
                [] \<Rightarrow> (Blocked, s)
              | r # rs \<Rightarrow>
                  (case r of
                     None \<Rightarrow>
                       (Returns (), s\<lparr>sends := rs, trace := trace s @ [Send_message text]\<rparr>)
                   | Some e \<Rightarrow>
                       if e \<in> set recon_errors then
                         (case connect fx 1000
                                 (s\<lparr>sends := rs, trace := trace s @ [Send_message text]\<rparr>) of
                            (Returns u, s1) \<Rightarrow> send_msg fx dumps data s1
                          | (Raised e1, s1) \<Rightarrow> (Raised e1, s1)
                          | (Blocked, s1) \<Rightarrow> (Blocked, s1))
                       else
                         (Raised e, s\<lparr>sends := rs, trace := trace s @ [Send_message text]\<rparr>)))))"
  by pat_completeness auto

text \<open>
  \<open>NoBsWs.recv_msg\<close>; \<open>loads\<close> is \<open>json.loads\<close>. The body of the
  \<open>try\<close> is \<open>get_message\<close> followed by \<open>loads\<close>: the inner \<open>case\<close>
  is what that body produces.
\<close>

function recv_msg :: "bool \<Rightarrow> (string \<Rightarrow> exn + pyval) \<Rightarrow> ws_state \<Rightarrow> pyval outcome \<times> ws_state" where
  "recv_msg fx loads s =
     (if \<not> has_ws s then (Raised AttributeError, s)
      else
        (case recvs s of
           [] \<Rightarrow> (Blocked, s)
         | r # rs \<Rightarrow>
             (case (case r of Inl e \<Rightarrow> Inl e | Inr text \<Rightarrow> loads text) of
                Inr v \<Rightarrow> (Returns v, s\<lparr>recvs := rs, trace := trace s @ [Get_message]\<rparr>)
              | Inl e \<Rightarrow>
                  if e \<in> set recon_errors then
                    (case connect fx 1000 (s\<lparr>recvs := rs, trace := trace s @ [Get_message]\<rparr>) of
                       (Returns u, s1) \<Rightarrow> recv_msg fx loads s1
                     | (Raised e1, s1) \<Rightarrow> (Raised e1, s1)
                     | (Blocked, s1) \<Rightarrow> (Blocked, s1))
                  else (Raised e, s\<lparr>recvs := rs, trace := trace s @ [Get_message]\<rparr>))))"
  by pat_completeness auto

text \<open>\<open>open_autorecon_ws\<close>: a fresh \<open>NoBsWs\<close>, connected before it is handed out.\<close>

definition open_autorecon_ws :: "bool \<Rightarrow> ws_state \<Rightarrow> unit outcome \<times> ws_state" where
  "open_autorecon_ws fx s = connect fx 1000 (s\<lparr>has_ws := False\<rparr>)"

text \<open>
  An environment in which nothing but recoverable transport errors goes wrong: every
  error raised by \<open>open_websocket_url\<close>, by entering the fixture, by
  \<open>send_message\<close> and by \<open>get_message\<close> is one of \<open>recon_errors\<close>, and the
  fixture yields None. Nothing is asked of \<open>stack.aclose()\<close>.
\<close>

definition recon_only :: "ws_state \<Rightarrow> bool" where
  "recon_only s \<longleftrightarrow>
     list_all (\<lambda>r. case r of None \<Rightarrow> True | Some e \<Rightarrow> e \<in> set recon_errors) (opens s) \<and>
     list_all (\<lambda>r. case r of Inl e \<Rightarrow> e \<in> set recon_errors | Inr b \<Rightarrow> b) (fixtures s) \<and>
     list_all (\<lambda>r. case r of None \<Rightarrow> True | Some e \<Rightarrow> e \<in> set recon_errors) (sends s) \<and>
     list_all (\<lambda>r. case r of Inl e \<Rightarrow> e \<in> set recon_errors | Inr t \<Rightarrow> True) (recvs s)"

text \<open>
  Every text that \<open>get_message\<close> is going to deliver is one that \<open>lds\<close>
  (\<open>json.loads\<close>) decodes.
\<close>

definition decodable :: "(string \<Rightarrow> exn + pyval) \<Rightarrow> ws_state \<Rightarrow> bool" where
  "decodable lds s \<longleftrightarrow>
     list_all (\<lambda>r. case r of
                    Inl e \<Rightarrow> True
                  | Inr t \<Rightarrow> (case lds t of Inl e \<Rightarrow> False | Inr v \<Rightarrow> True))
              (recvs s)"

text \<open>The texts of the warnings logged in a trace, in order.\<close>

fun warnings :: "action list \<Rightarrow> string list" where
  "warnings [] = []"
| "warnings (Log_warning t # tr) = t # warnings tr"
| "warnings (a # tr) = warnings tr"

section \<open>JSON-RPC multiplexing (piker/data/_web_bs.py, open_jsonrpc_session)\<close>

text \<open>
  \<open>class JSONRPCResult(Struct)\<close>. The field \<open>id\<close> is called \<open>id'\<close> here;
  \<open>result\<close> and \<open>error\<close> are \<open>PNone\<close> for Python's None.
\<close>

record JSONRPCResult =
  jsonrpc :: string
  id' :: int
  result :: pyval
  error :: pyval

text \<open>
  One entry of \<open>rpc_results\<close>: the dict \<open>{'result': ..., 'event': trio.Event()}\<close>.
  \<open>slot_result\<close> is None until a response is stored; \<open>event_set\<close> is whether
  the event has been set.
\<close>

record slot =
  slot_result :: "JSONRPCResult option"
  event_set :: bool

text \<open>
  What the session takes from outside the repository: \<open>json.dumps\<close> (plain, with
  \<open>indent=4\<close>, and applied to a struct in the warning line), \<open>json.loads\<close>, and
  the \<open>dtype\<close> argument of \<open>open_jsonrpc_session\<close> applied as \<open>dtype(**msg)\<close>.
\<close>

record codec =
  dumps :: "pyval \<Rightarrow> exn + string"
  dumps_indent :: "pyval \<Rightarrow> exn + string"
  dumps_struct :: "JSONRPCResult \<Rightarrow> exn + string"
  loads :: "string \<Rightarrow> exn + pyval"
  dtype :: "pyval \<Rightarrow> exn + JSONRPCResult"

text \<open>
  The state \<open>json_rpc\<close> and \<open>recv_task\<close> close over: the channel, the counter
  \<open>rpc_id = count(start_id)\<close> (its next value) and the dict \<open>rpc_results\<close>.
\<close>

record rpc_state =
  ws :: ws_state
  rpc_id :: int
  rpc_results :: "int \<rightharpoonup> slot"

text \<open>
  \<open>open_jsonrpc_session\<close> up to the \<open>yield\<close>: the channel is opened without a
  fixture, the counter starts at \<open>start_id\<close> and the dict is empty.
\<close>

definition open_jsonrpc_session :: "int \<Rightarrow> ws_state \<Rightarrow> unit outcome \<times> rpc_state" where
  "open_jsonrpc_session start_id s =
     (case open_autorecon_ws False s of
        (r, s1) \<Rightarrow> (r, \<lparr>ws = s1, rpc_id = start_id, rpc_results = Map.empty\<rparr>))"

text \<open>The request dict that \<open>json_rpc\<close> builds, for the id it is given.\<close>

definition request_msg :: "int \<Rightarrow> string \<Rightarrow> pyval \<Rightarrow> pyval" where
  "request_msg n method params =
     PDict [(''jsonrpc'', PStr ''2.0''), (''id'', PInt n), (''method'', PStr method),
            (''params'', params)]"

text \<open>
  \<open>json_rpc\<close> from its start to the end of \<open>await ws.send_msg(msg)\<close>: take the
  next id, register the slot, send. It returns the local \<open>_id\<close>.
\<close>

definition json_rpc_send :: "codec \<Rightarrow> string \<Rightarrow> pyval \<Rightarrow> rpc_state \<Rightarrow> int outcome \<times> rpc_state" where
  "json_rpc_send c method params st =
     (let msg = request_msg (rpc_id st) method params;
          n = rpc_id st;
          st1 = st\<lparr>rpc_id := rpc_id st + 1,
                   rpc_results := (rpc_results st)(n \<mapsto> \<lparr>slot_result = None, event_set = False\<rparr>)\<rparr>
      in case send_msg False (dumps c) msg (ws st1) of
           (Returns u, s1) \<Rightarrow> (Returns n, st1\<lparr>ws := s1\<rparr>)
         | (Raised e, s1) \<Rightarrow> (Raised e, st1\<lparr>ws := s1\<rparr>)
         | (Blocked, s1) \<Rightarrow> (Blocked, st1\<lparr>ws := s1\<rparr>))"

text \<open>
  The rest of \<open>json_rpc\<close>, from \<open>await rpc_results[_id]['event'].wait()\<close>: it
  stays suspended while the event is not set; then it reads the result, deletes the
  slot, and raises or returns.
\<close>

definition json_rpc_wait :: "codec \<Rightarrow> int \<Rightarrow> rpc_state \<Rightarrow> JSONRPCResult outcome \<times> rpc_state" where
  "json_rpc_wait c n st =
     (case rpc_results st n of
        None \<Rightarrow> (Raised KeyError, st)
      | Some sl \<Rightarrow>
          if \<not> event_set sl then (Blocked, st)
          else
            (let st1 = st\<lparr>rpc_results := (rpc_results st)(n := None)\<rparr> in
             case slot_result sl of
               None \<Rightarrow> (Raised AttributeError, st1)
             | Some ret \<Rightarrow>
                 if error ret \<noteq> PNone then
                   (case dumps_indent c (error ret) of
                      Inl e \<Rightarrow> (Raised e, st1)
                    | Inr text \<Rightarrow> (Raised (Exception text), st1))
                 else (Returns ret, st1)))"

text \<open>
  The body of the loop of \<open>recv_task\<close> after \<open>msg = dtype(**msg)\<close>: the warning
  (whose f-string calls \<open>json.dumps\<close> on the struct), \<open>setdefault\<close>, storing the
  result and setting the event.
\<close>

definition deliver :: "codec \<Rightarrow> JSONRPCResult \<Rightarrow> rpc_state \<Rightarrow> unit outcome \<times> rpc_state" where
  "deliver c msg st =
     (case (if rpc_results st (id' msg) = None
            then (case dumps_struct c msg of
                    Inl e \<Rightarrow> Inl e
                  | Inr text \<Rightarrow>
                      Inr (st\<lparr>ws := (ws st)\<lparr>trace := trace (ws st) @ [Log_warning text]\<rparr>\<rparr>))
            else Inr st) of
        Inl e \<Rightarrow> (Raised e, st)
      | Inr st1 \<Rightarrow>
          (let res = (case rpc_results st1 (id' msg) of
                        Some sl \<Rightarrow> sl
                      | None \<Rightarrow> \<lparr>slot_result = None, event_set = False\<rparr>)
           in (Returns (),
               st1\<lparr>rpc_results :=
                     (rpc_results st1)(id' msg \<mapsto> res\<lparr>slot_result := Some msg, event_set := True\<rparr>)\<rparr>)))"

text \<open>One iteration of \<open>async for msg in ws\<close> in \<open>recv_task\<close>.\<close>

definition recv_task_step :: "codec \<Rightarrow> rpc_state \<Rightarrow> unit outcome \<times> rpc_state" where
  "recv_task_step c st =
     (case recv_msg False (loads c) (ws st) of
        (Blocked, s1) \<Rightarrow> (Blocked, st\<lparr>ws := s1\<rparr>)
      | (Raised e, s1) \<Rightarrow> (Raised e, st\<lparr>ws := s1\<rparr>)
      | (Returns m, s1) \<Rightarrow>
          (case dtype c m of
             Inl e \<Rightarrow> (Raised e, st\<lparr>ws := s1\<rparr>)
           | Inr msg \<Rightarrow> deliver c msg (st\<lparr>ws := s1\<rparr>)))"

text \<open>
  A session as the scheduler runs it: tasks call \<open>json_rpc\<close> (\<open>Call\<close>), the
  receive task handles one inbound frame (\<open>Inbound\<close>), a suspended call is resumed
  (\<open>Resume\<close> with its \<open>_id\<close>). Each observation records what the step did.
\<close>

datatype event = Call string pyval | Inbound | Resume int

datatype obs =
    Called "int outcome"
  | Received "unit outcome"
  | Resumed int "JSONRPCResult outcome"

fun step :: "codec \<Rightarrow> event \<Rightarrow> rpc_state \<Rightarrow> obs \<times> rpc_state" where
  "step c (Call method params) st =
     (case json_rpc_send c method params st of (r, st1) \<Rightarrow> (Called r, st1))"
| "step c Inbound st = (case recv_task_step c st of (r, st1) \<Rightarrow> (Received r, st1))"
| "step c (Resume n) st = (case json_rpc_wait c n st of (r, st1) \<Rightarrow> (Resumed n r, st1))"

fun run :: "codec \<Rightarrow> event list \<Rightarrow> rpc_state \<Rightarrow> obs list \<times> rpc_state" where
  "run c [] st = ([], st)"
| "run c (ev # evs) st =
     (case step c ev st of
        (ob, st1) \<Rightarrow> (case run c evs st1 of (obs, st2) \<Rightarrow> (ob # obs, st2)))"




text \<open>
  A call is complete when it has returned its response or has raised the exception
  made from the response's error field.
\<close>

fun completes :: "JSONRPCResult outcome \<Rightarrow> bool" where
  "completes (Returns ret) = True"
| "completes (Raised (Exception text)) = True"
| "completes r = False"

section \<open>Clearing messages (piker/clearing/_messages.py)\<close>

text \<open>
  A field declaration of a message class: its name, the members of its
  \<open>Literal[...]\<close> annotation if it has one, and its default if it has one.
\<close>

record field =
  fname :: string
  literals :: "string list option"
  fdefault :: "pyval option"

definition required :: "string \<Rightarrow> field" where
  "required n = \<lparr>fname = n, literals = None, fdefault = None\<rparr>"

definition literal :: "string \<Rightarrow> string list \<Rightarrow> field" where
  "literal n ls = \<lparr>fname = n, literals = Some ls, fdefault = None\<rparr>"

definition with_default :: "string \<Rightarrow> pyval \<Rightarrow> field" where
  "with_default n d = \<lparr>fname = n, literals = None, fdefault = Some d\<rparr>"

text \<open>The ten message classes, field by field in the order of the source.\<close>

definition Order_fields :: "field list" where
  "Order_fields =
     [literal ''action'' [''buy'', ''sell'', ''alert''],
      literal ''exec_mode'' [''dark'', ''live''],
      required ''oid'', required ''symbol'', required ''account'',
      required ''price'', required ''size'',
      with_default ''brokers'' (PList [])]"

definition Cancel_fields :: "field list" where
  "Cancel_fields =
     [with_default ''action'' (PStr ''cancel''), required ''oid'', required ''symbol'']"

definition Status_fields :: "field list" where
  "Status_fields =
     [with_default ''name'' (PStr ''status''), required ''time_ns'', required ''oid'',
      literal ''resp''
        [''pending'', ''open'', ''dark_open'', ''triggered'', ''closed'', ''fill'',
         ''canceled'', ''error''],
      with_default ''reqid'' PNone, with_default ''req'' PNone, with_default ''src'' PNone,
      with_default ''brokerd_msg'' (PDict [])]"

definition BrokerdCancel_fields :: "field list" where
  "BrokerdCancel_fields =
     [with_default ''action'' (PStr ''cancel''), required ''oid'', required ''time_ns'',
      required ''account'', with_default ''reqid'' PNone]"

definition BrokerdOrder_fields :: "field list" where
  "BrokerdOrder_fields =
     [required ''oid'', required ''account'', required ''time_ns'',
      with_default ''action'' (PStr ''''), with_default ''reqid'' PNone,
      required ''symbol'', required ''price'', required ''size'']"

definition BrokerdOrderAck_fields :: "field list" where
  "BrokerdOrderAck_fields =
     [with_default ''name'' (PStr ''ack''), required ''reqid'', required ''oid'',
      with_default ''account'' (PStr '''')]"

definition BrokerdStatus_fields :: "field list" where
  "BrokerdStatus_fields =
     [with_default ''name'' (PStr ''status''), required ''reqid'', required ''time_ns'',
      literal ''status'' [''open'', ''canceled'', ''fill'', ''pending'', ''error''],
      required ''account'', with_default ''filled'' (PFloat ''0.0''),
      with_default ''reason'' (PStr ''''), with_default ''remaining'' (PFloat ''0.0''),
      with_default ''broker_details'' (PDict [(''name'', PStr '''')])]"

definition BrokerdFill_fields :: "field list" where
  "BrokerdFill_fields =
     [with_default ''name'' (PStr ''fill''), required ''reqid'', required ''time_ns'',
      required ''size'', required ''price'', with_default ''action'' PNone,
      with_default ''broker_details'' (PDict []), required ''broker_time'']"

definition BrokerdError_fields :: "field list" where
  "BrokerdError_fields =
     [with_default ''name'' (PStr ''error''), required ''oid'', with_default ''reqid'' PNone,
      required ''symbol'', required ''reason'', with_default ''broker_details'' (PDict [])]"

definition BrokerdPosition_fields :: "field list" where
  "BrokerdPosition_fields =
     [with_default ''name'' (PStr ''position''), required ''broker'', required ''account'',
      required ''symbol'', required ''size'', required ''avg_price'',
      with_default ''currency'' (PStr '''')]"

definition taxonomy :: "(string \<times> field list) list" where
  "taxonomy =
     [(''Order'', Order_fields), (''Cancel'', Cancel_fields), (''Status'', Status_fields),
      (''BrokerdCancel'', BrokerdCancel_fields), (''BrokerdOrder'', BrokerdOrder_fields),
      (''BrokerdOrderAck'', BrokerdOrderAck_fields),
      (''BrokerdStatus'', BrokerdStatus_fields), (''BrokerdFill'', BrokerdFill_fields),
      (''BrokerdError'', BrokerdError_fields),
      (''BrokerdPosition'', BrokerdPosition_fields)]"

datatype schema_error = SchemaError

text \<open>
  Modelled from the spec: the constructor of \<open>Struct\<close> (piker/data/types.py), the base
  class of every message, is not among the sources. The spec says that construction
  validates that required fields are present and that enum-valued fields are drawn
  from the declared literal set, and fails with a SchemaError otherwise; that unknown
  fields are a construction error; and that a field with a declared default may be
  left out. \<open>construct_fields\<close> goes through the declared fields in order over the
  keyword arguments \<open>kw\<close>.
\<close>

fun construct_fields :: "field list \<Rightarrow> (string \<times> pyval) list \<Rightarrow> schema_error + (string \<times> pyval) list" where
  "construct_fields [] kw = Inr []"
| "construct_fields (f # fs) kw =
     (case map_of kw (fname f) of
        None \<Rightarrow>
          (case fdefault f of
             None \<Rightarrow> Inl SchemaError
           | Some d \<Rightarrow>
               (case construct_fields fs kw of
                  Inl e \<Rightarrow> Inl e
                | Inr m \<Rightarrow> Inr ((fname f, d) # m)))
      | Some v \<Rightarrow>
          if (case literals f of None \<Rightarrow> True | Some ls \<Rightarrow> v \<in> set (map PStr ls))
          then (case construct_fields fs kw of
                  Inl e \<Rightarrow> Inl e
                | Inr m \<Rightarrow> Inr ((fname f, v) # m))
          else Inl SchemaError)"

text \<open>
  Modelled from the spec: construction of a message of the class with fields \<open>fs\<close>
  (see \<open>construct_fields\<close>); a keyword that names no declared field is an error.
\<close>

definition construct :: "field list \<Rightarrow> (string \<times> pyval) list \<Rightarrow> schema_error + (string \<times> pyval) list" where
  "construct fs kw =
     (if list_all (\<lambda>k. k \<in> set (map fname fs)) (map fst kw)
      then construct_fields fs kw
      else Inl SchemaError)"

section \<open>Binding broker request ids to dialogs\<close>

text \<open>\<open>class BrokerdOrderAck(Struct)\<close>; \<open>reqid\<close> is \<open>int | str\<close>.\<close>

record BrokerdOrderAck =
  name :: string
  reqid :: "int + string"
  oid :: string
  account :: string

text \<open>
  Modelled from the spec: the routing engine is not among the sources. A dialog is
  identified by its \<open>oid\<close> and later enriched with the broker-assigned \<open>reqid\<close>;
  the dialog table maps each open \<open>oid\<close> to its dialog.
\<close>

record dialog =
  dialog_reqid :: "(int + string) option"

type_synonym dialogs = "string \<rightharpoonup> dialog"

datatype ems_error = UnknownDialog | RebindError

text \<open>
  Modelled from the spec: \<open>on_brokerd_ack\<close> of the routing engine, which is not among
  the sources. It binds \<open>reqid\<close> to the dialog of the ack's \<open>oid\<close>; an ack for an
  \<open>oid\<close> with no dialog is an UnknownDialog; a second ack for the same \<open>oid\<close> with a
  different \<open>reqid\<close> is a RebindError and leaves the table as it was.
\<close>

definition on_brokerd_ack :: "BrokerdOrderAck \<Rightarrow> dialogs \<Rightarrow> ems_error option \<times> dialogs" where
  "on_brokerd_ack ack tbl =
     (case tbl (oid ack) of
        None \<Rightarrow> (Some UnknownDialog, tbl)
      | Some d \<Rightarrow>
          (case dialog_reqid d of
             None \<Rightarrow> (None, tbl(oid ack \<mapsto> d\<lparr>dialog_reqid := Some (reqid ack)\<rparr>))
           | Some r \<Rightarrow>
               if r = reqid ack then (None, tbl) else (Some RebindError, tbl)))"

text \<open>
  Modelled from the spec: the engine handling a sequence of acks, one after the
  other, whatever each one's outcome.
\<close>

fun on_brokerd_acks :: "BrokerdOrderAck list \<Rightarrow> dialogs \<Rightarrow> dialogs" where
  "on_brokerd_acks [] tbl = tbl"
| "on_brokerd_acks (a # as) tbl = on_brokerd_acks as (snd (on_brokerd_ack a tbl))"

section \<open>Termination and the steps of the channel\<close>

termination close_loop
  by (relation "measure (\<lambda>s. length (closes s))") auto

declare close_loop.simps [simp del]

termination attempts
  by (relation "measure (\<lambda>(fx, tries, i, last_err, s). nat (tries - int i))") auto

declare attempts.simps [simp del]

lemma close_loop_Nil: "closes s = [] \<Longrightarrow> close_loop s = (Blocked, s)"
  by (subst close_loop.simps) simp

lemma close_loop_ok:
  "closes s = None # rs \<Longrightarrow>
   close_loop s = (Returns (), s\<lparr>closes := rs, trace := trace s @ [Aclose]\<rparr>)"
  by (subst close_loop.simps) simp

lemma close_loop_again:
  "closes s = Some e # rs \<Longrightarrow> e = DisconnectionTimeout \<or> e = RuntimeError \<Longrightarrow>
   close_loop s = close_loop (s\<lparr>closes := rs, trace := trace s @ [Aclose, Sleep 500]\<rparr>)"
  by (subst close_loop.simps) simp

lemma close_loop_raise:
  "closes s = Some e # rs \<Longrightarrow> e \<noteq> DisconnectionTimeout \<Longrightarrow> e \<noteq> RuntimeError \<Longrightarrow>
   close_loop s = (Raised e, s\<lparr>closes := rs, trace := trace s @ [Aclose]\<rparr>)"
  by (subst close_loop.simps) simp

lemma attempts_done:
  "\<not> int i < tries \<Longrightarrow>
   attempts fx tries i le s =
     (Raised (case le of None \<Rightarrow> TypeError | Some e \<Rightarrow> e), s\<lparr>trace := trace s @ [Log_exception]\<rparr>)"
  by (subst attempts.simps) (simp split: option.splits)

lemma attempts_Nil:
  "int i < tries \<Longrightarrow> opens s = [] \<Longrightarrow> attempts fx tries i le s = (Blocked, s)"
  by (subst attempts.simps) simp

lemma attempts_open_retry:
  "int i < tries \<Longrightarrow> opens s = Some e # rs \<Longrightarrow> e \<in> set recon_errors \<Longrightarrow>
   attempts fx tries i le s =
     attempts fx tries (Suc i) (Some e)
       (s\<lparr>opens := rs, trace := trace s @ [Open_ws, Log_error e i, Sleep 500]\<rparr>)"
  by (subst attempts.simps) simp

lemma attempts_open_raise:
  "int i < tries \<Longrightarrow> opens s = Some e # rs \<Longrightarrow> e \<notin> set recon_errors \<Longrightarrow>
   attempts fx tries i le s = (Raised e, s\<lparr>opens := rs, trace := trace s @ [Open_ws]\<rparr>)"
  by (subst attempts.simps) simp

lemma attempts_no_fixture:
  "int i < tries \<Longrightarrow> opens s = None # rs \<Longrightarrow>
   attempts False tries i le s =
     (Returns (), s\<lparr>opens := rs, trace := trace s @ [Open_ws, Log_info], has_ws := True\<rparr>)"
  by (subst attempts.simps) simp

lemma attempts_fixture_Nil:
  "int i < tries \<Longrightarrow> opens s = None # rs \<Longrightarrow> fixtures s = [] \<Longrightarrow>
   attempts True tries i le s =
     (Blocked, s\<lparr>opens := rs, trace := trace s @ [Open_ws], has_ws := True\<rparr>)"
  by (subst attempts.simps) simp

lemma attempts_fixture_ok:
  "int i < tries \<Longrightarrow> opens s = None # rs \<Longrightarrow> fixtures s = Inr True # fs \<Longrightarrow>
   attempts True tries i le s =
     (Returns (),
      s\<lparr>opens := rs, fixtures := fs, trace := trace s @ [Open_ws, Enter_fixture, Log_info],
        has_ws := True\<rparr>)"
  by (subst attempts.simps) simp

lemma attempts_fixture_assert:
  "int i < tries \<Longrightarrow> opens s = None # rs \<Longrightarrow> fixtures s = Inr False # fs \<Longrightarrow>
   attempts True tries i le s =
     (Raised AssertionError,
      s\<lparr>opens := rs, fixtures := fs, trace := trace s @ [Open_ws, Enter_fixture],
        has_ws := True\<rparr>)"
  by (subst attempts.simps) simp

lemma attempts_fixture_retry:
  "int i < tries \<Longrightarrow> opens s = None # rs \<Longrightarrow> fixtures s = Inl e # fs \<Longrightarrow>
   e \<in> set recon_errors \<Longrightarrow>
   attempts True tries i le s =
     attempts True tries (Suc i) (Some e)
       (s\<lparr>opens := rs, fixtures := fs,
          trace := trace s @ [Open_ws, Enter_fixture, Log_error e i, Sleep 500], has_ws := True\<rparr>)"
  by (subst attempts.simps) simp

lemma attempts_fixture_raise:
  "int i < tries \<Longrightarrow> opens s = None # rs \<Longrightarrow> fixtures s = Inl e # fs \<Longrightarrow>
   e \<notin> set recon_errors \<Longrightarrow>
   attempts True tries i le s =
     (Raised e,
      s\<lparr>opens := rs, fixtures := fs, trace := trace s @ [Open_ws, Enter_fixture],
        has_ws := True\<rparr>)"
  by (subst attempts.simps) simp

lemma close_loop_rule:
  assumes "\<And>s. closes s = [] \<Longrightarrow> P s (Blocked, s)"
    and "\<And>s rs. closes s = None # rs \<Longrightarrow>
           P s (Returns (), s\<lparr>closes := rs, trace := trace s @ [Aclose]\<rparr>)"
    and "\<And>s e rs. closes s = Some e # rs \<Longrightarrow> e \<noteq> DisconnectionTimeout \<Longrightarrow> e \<noteq> RuntimeError \<Longrightarrow>
           P s (Raised e, s\<lparr>closes := rs, trace := trace s @ [Aclose]\<rparr>)"
    and "\<And>s e rs. closes s = Some e # rs \<Longrightarrow> e = DisconnectionTimeout \<or> e = RuntimeError \<Longrightarrow>
           P (s\<lparr>closes := rs, trace := trace s @ [Aclose, Sleep 500]\<rparr>)
             (close_loop (s\<lparr>closes := rs, trace := trace s @ [Aclose, Sleep 500]\<rparr>)) \<Longrightarrow>
           P s (close_loop (s\<lparr>closes := rs, trace := trace s @ [Aclose, Sleep 500]\<rparr>))"
  shows "P s (close_loop s)"
proof (induction "length (closes s)" arbitrary: s)
  case 0
  then have "closes s = []" by simp
  then show ?case using assms(1) by (simp add: close_loop_Nil)
next
  case (Suc n)
  then obtain r rs where c: "closes s = r # rs" by (cases "closes s") auto
  show ?case
  proof (cases r)
    case None
    with c show ?thesis using assms(2) by (simp add: close_loop_ok)
  next
    case (Some e)
    show ?thesis
    proof (cases "e = DisconnectionTimeout \<or> e = RuntimeError")
      case True
      let ?s' = "s\<lparr>closes := rs, trace := trace s @ [Aclose, Sleep 500]\<rparr>"
      have "n = length (closes ?s')" using Suc(2) c by simp
      then have "P ?s' (close_loop ?s')" by (rule Suc(1))
      with assms(4) c Some True have "P s (close_loop ?s')" by blast
      then show ?thesis using c Some True by (simp add: close_loop_again)
    next
      case False
      with c Some show ?thesis using assms(3)[of s e rs] by (simp add: close_loop_raise)
    qed
  qed
qed

lemma close_loop_frame:
  "opens (snd (close_loop s)) = opens s \<and> fixtures (snd (close_loop s)) = fixtures s \<and>
   sends (snd (close_loop s)) = sends s \<and> recvs (snd (close_loop s)) = recvs s \<and>
   has_ws (snd (close_loop s)) = has_ws s"
  by (rule close_loop_rule[where P = "\<lambda>s res.
        opens (snd res) = opens s \<and> fixtures (snd res) = fixtures s \<and>
        sends (snd res) = sends s \<and> recvs (snd res) = recvs s \<and>
        has_ws (snd res) = has_ws s"]) simp_all

lemma close_loop_closes:
  "length (closes (snd (close_loop s))) \<le> length (closes s) \<and>
   (fst (close_loop s) = Returns () \<longrightarrow> length (closes (snd (close_loop s))) < length (closes s))"
  by (rule close_loop_rule[where P = "\<lambda>s res.
        length (closes (snd res)) \<le> length (closes s) \<and>
        (fst res = Returns () \<longrightarrow> length (closes (snd res)) < length (closes s))"]) auto

lemma attempts_rule:
  assumes d: "\<And>i le s. \<not> int i < tries \<Longrightarrow>
           P i le s (Raised (case le of None \<Rightarrow> TypeError | Some e \<Rightarrow> e),
                     s\<lparr>trace := trace s @ [Log_exception]\<rparr>)"
    and n: "\<And>i le s. int i < tries \<Longrightarrow> opens s = [] \<Longrightarrow> P i le s (Blocked, s)"
    and o_raise: "\<And>i le s e rs. int i < tries \<Longrightarrow> opens s = Some e # rs \<Longrightarrow> e \<notin> set recon_errors \<Longrightarrow>
           P i le s (Raised e, s\<lparr>opens := rs, trace := trace s @ [Open_ws]\<rparr>)"
    and o_retry: "\<And>i le s e rs. int i < tries \<Longrightarrow> opens s = Some e # rs \<Longrightarrow> e \<in> set recon_errors \<Longrightarrow>
           P (Suc i) (Some e) (s\<lparr>opens := rs, trace := trace s @ [Open_ws, Log_error e i, Sleep 500]\<rparr>)
             (attempts fx tries (Suc i) (Some e)
                (s\<lparr>opens := rs, trace := trace s @ [Open_ws, Log_error e i, Sleep 500]\<rparr>)) \<Longrightarrow>
           P i le s (attempts fx tries (Suc i) (Some e)
                (s\<lparr>opens := rs, trace := trace s @ [Open_ws, Log_error e i, Sleep 500]\<rparr>))"
    and nofx: "\<And>i le s rs. int i < tries \<Longrightarrow> opens s = None # rs \<Longrightarrow> \<not> fx \<Longrightarrow>
           P i le s (Returns (), s\<lparr>opens := rs, trace := trace s @ [Open_ws, Log_info], has_ws := True\<rparr>)"
    and f_nil: "\<And>i le s rs. int i < tries \<Longrightarrow> opens s = None # rs \<Longrightarrow> fx \<Longrightarrow> fixtures s = [] \<Longrightarrow>
           P i le s (Blocked, s\<lparr>opens := rs, trace := trace s @ [Open_ws], has_ws := True\<rparr>)"
    and f_ok: "\<And>i le s rs fs. int i < tries \<Longrightarrow> opens s = None # rs \<Longrightarrow> fx \<Longrightarrow>
           fixtures s = Inr True # fs \<Longrightarrow>
           P i le s (Returns (),
                     s\<lparr>opens := rs, fixtures := fs,
                       trace := trace s @ [Open_ws, Enter_fixture, Log_info], has_ws := True\<rparr>)"
    and f_assert: "\<And>i le s rs fs. int i < tries \<Longrightarrow> opens s = None # rs \<Longrightarrow> fx \<Longrightarrow>
           fixtures s = Inr False # fs \<Longrightarrow>
           P i le s (Raised AssertionError,
                     s\<lparr>opens := rs, fixtures := fs,
                       trace := trace s @ [Open_ws, Enter_fixture], has_ws := True\<rparr>)"
    and f_raise: "\<And>i le s rs e fs. int i < tries \<Longrightarrow> opens s = None # rs \<Longrightarrow> fx \<Longrightarrow>
           fixtures s = Inl e # fs \<Longrightarrow> e \<notin> set recon_errors \<Longrightarrow>
           P i le s (Raised e,
                     s\<lparr>opens := rs, fixtures := fs,
                       trace := trace s @ [Open_ws, Enter_fixture], has_ws := True\<rparr>)"
    and f_retry: "\<And>i le s rs e fs. int i < tries \<Longrightarrow> opens s = None # rs \<Longrightarrow> fx \<Longrightarrow>
           fixtures s = Inl e # fs \<Longrightarrow> e \<in> set recon_errors \<Longrightarrow>
           P (Suc i) (Some e)
             (s\<lparr>opens := rs, fixtures := fs,
                trace := trace s @ [Open_ws, Enter_fixture, Log_error e i, Sleep 500], has_ws := True\<rparr>)
             (attempts fx tries (Suc i) (Some e)
                (s\<lparr>opens := rs, fixtures := fs,
                   trace := trace s @ [Open_ws, Enter_fixture, Log_error e i, Sleep 500],
                   has_ws := True\<rparr>)) \<Longrightarrow>
           P i le s (attempts fx tries (Suc i) (Some e)
                (s\<lparr>opens := rs, fixtures := fs,
                   trace := trace s @ [Open_ws, Enter_fixture, Log_error e i, Sleep 500],
                   has_ws := True\<rparr>))"
  shows "P i le s (attempts fx tries i le s)"
proof (induction "nat (tries - int i)" arbitrary: i le s)
  case 0
  then have ge: "\<not> int i < tries" by simp
  show ?case unfolding attempts_done[OF ge] by (rule d[OF ge])
next
  case (Suc k)
  then have lt: "int i < tries" and k: "k = nat (tries - int (Suc i))" by auto
  note IH = Suc(1)[OF k]
  show ?case
  proof (cases "opens s")
    case Nil
    with lt show ?thesis using n by (simp add: attempts_Nil)
  next
    case (Cons r rs)
    show ?thesis
    proof (cases r)
      case (Some e)
      show ?thesis
      proof (cases "e \<in> set recon_errors")
        case True
        have "attempts fx tries i le s = attempts fx tries (Suc i) (Some e)
                (s\<lparr>opens := rs, trace := trace s @ [Open_ws, Log_error e i, Sleep 500]\<rparr>)"
          using lt Cons Some True by (simp add: attempts_open_retry)
        moreover have "P i le s (attempts fx tries (Suc i) (Some e)
                (s\<lparr>opens := rs, trace := trace s @ [Open_ws, Log_error e i, Sleep 500]\<rparr>))"
          using lt Cons Some True by (intro o_retry IH) simp_all
        ultimately show ?thesis by simp
      next
        case False
        with lt Cons Some show ?thesis using o_raise[of i s e rs le]
          by (simp add: attempts_open_raise)
      qed
    next
      case None
      show ?thesis
      proof (cases fx)
        case False
        with lt Cons None show ?thesis using nofx[of i s rs le]
          by (simp add: attempts_no_fixture)
      next
        case True
        show ?thesis
        proof (cases "fixtures s")
          case Nil
          with lt Cons None True show ?thesis using f_nil[of i s rs le]
            by (simp add: attempts_fixture_Nil)
        next
          case fc: (Cons f fs)
          show ?thesis
          proof (cases f)
            case (Inr b)
            show ?thesis
            proof (cases b)
              case bt: True
              with lt Cons None True fc Inr show ?thesis using f_ok[of i s rs fs le]
                by (simp add: attempts_fixture_ok)
            next
              case bf: False
              with lt Cons None True fc Inr show ?thesis using f_assert[of i s rs fs le]
                by (simp add: attempts_fixture_assert)
            qed
          next
            case (Inl e)
            show ?thesis
            proof (cases "e \<in> set recon_errors")
              case False
              with lt Cons None True fc Inl show ?thesis using f_raise[of i s rs e fs le]
                by (simp add: attempts_fixture_raise)
            next
              case er: True
              let ?s' = "s\<lparr>opens := rs, fixtures := fs,
                   trace := trace s @ [Open_ws, Enter_fixture, Log_error e i, Sleep 500],
                   has_ws := True\<rparr>"
              have "attempts fx tries i le s = attempts fx tries (Suc i) (Some e) ?s'"
                using lt Cons None True fc Inl er by (simp add: attempts_fixture_retry)
              moreover have "P i le s (attempts fx tries (Suc i) (Some e) ?s')"
                using lt Cons None True fc Inl er by (intro f_retry IH) simp_all
              ultimately show ?thesis by simp
            qed
          qed
        qed
      qed
    qed
  qed
qed

lemma attempts_frame:
  "closes (snd (attempts fx tries i le s)) = closes s \<and>
   sends (snd (attempts fx tries i le s)) = sends s \<and>
   recvs (snd (attempts fx tries i le s)) = recvs s"
  by (rule attempts_rule[where P = "\<lambda>i le s res.
        closes (snd res) = closes s \<and> sends (snd res) = sends s \<and> recvs (snd res) = recvs s"])
     simp_all

lemma attempts_has_ws:
  "fst (attempts fx tries i le s) = Returns () \<longrightarrow> has_ws (snd (attempts fx tries i le s))"
  by (rule attempts_rule[where P = "\<lambda>i le s res. fst res = Returns () \<longrightarrow> has_ws (snd res)"])
     simp_all

lemma connect_frame:
  assumes "connect fx tries s = (r, s1)"
  shows "sends s1 = sends s \<and> recvs s1 = recvs s \<and>
         length (closes s1) \<le> length (closes s) \<and>
         (r = Returns () \<longrightarrow> length (closes s1) < length (closes s) \<and> has_ws s1)"
proof -
  obtain r0 s0 where c: "close_loop s = (r0, s0)" by (cases "close_loop s")
  have fr: "sends s0 = sends s" "recvs s0 = recvs s"
    using close_loop_frame[of s] c by simp_all
  have cl: "length (closes s0) \<le> length (closes s)"
      "r0 = Returns () \<Longrightarrow> length (closes s0) < length (closes s)"
    using close_loop_closes[of s] c by simp_all
  have a: "closes (snd (attempts fx tries 0 None s0)) = closes s0"
      "sends (snd (attempts fx tries 0 None s0)) = sends s0"
      "recvs (snd (attempts fx tries 0 None s0)) = recvs s0"
    using attempts_frame[of fx tries 0 None s0] by simp_all
  have h: "fst (attempts fx tries 0 None s0) = Returns () \<Longrightarrow> has_ws (snd (attempts fx tries 0 None s0))"
    using attempts_has_ws[of fx tries 0 None s0] by simp
  show ?thesis
  proof (cases r0)
    case (Returns u)
    then have "attempts fx tries 0 None s0 = (r, s1)" using assms c by (simp add: connect_def)
    then show ?thesis using a h cl fr Returns by auto
  next
    case (Raised e)
    then show ?thesis using assms c cl fr by (auto simp: connect_def)
  next
    case Blocked
    then show ?thesis using assms c cl fr by (auto simp: connect_def)
  qed
qed

lemma connect_Returns_measure:
  "(Returns u, y) = connect fx tries s \<Longrightarrow>
     sends y = sends s \<and> recvs y = recvs s \<and> length (closes y) < length (closes s)"
  using connect_frame[of fx tries s "Returns u" y] by simp

termination send_msg
proof (relation "measure (\<lambda>(fx, dumps, data, s). length (sends s) + length (closes s))", goal_cases)
  case 1
  show ?case by simp
next
  case (2 fx dumps data s e x u s1)
  then show ?case by (auto dest: connect_Returns_measure)
next
  case (3 fx dumps data s t r rs e x u s1)
  then show ?case by (auto dest!: connect_Returns_measure)
qed

declare send_msg.simps [simp del]

termination recv_msg
proof (relation "measure (\<lambda>(fx, loads, s). length (recvs s) + length (closes s))", goal_cases)
  case 1
  show ?case by simp
next
  case (2 fx loads s r rs e x u s1)
  then show ?case by (auto dest!: connect_Returns_measure)
qed

declare recv_msg.simps [simp del]

lemma warnings_append: "warnings (xs @ ys) = warnings xs @ warnings ys"
  by (induction xs rule: warnings.induct) simp_all

lemma close_loop_keeps:
  "opens (snd (close_loop s)) = opens s \<and> fixtures (snd (close_loop s)) = fixtures s \<and>
   warnings (trace (snd (close_loop s))) = warnings (trace s) \<and>
   count_list (trace (snd (close_loop s))) Open_ws = count_list (trace s) Open_ws"
  by (rule close_loop_rule[where P = "\<lambda>s res.
        opens (snd res) = opens s \<and> fixtures (snd res) = fixtures s \<and>
        warnings (trace (snd res)) = warnings (trace s) \<and>
        count_list (trace (snd res)) Open_ws = count_list (trace s) Open_ws"])
     (simp_all add: warnings_append)

lemma close_loop_Raised:
  "fst (close_loop s) = Raised e \<longrightarrow>
     e \<noteq> DisconnectionTimeout \<and> e \<noteq> RuntimeError \<and> last (trace (snd (close_loop s))) = Aclose"
  by (rule close_loop_rule[where P = "\<lambda>s res.
        fst res = Raised e \<longrightarrow>
        e \<noteq> DisconnectionTimeout \<and> e \<noteq> RuntimeError \<and> last (trace (snd res)) = Aclose"])
     auto

lemma attempts_keeps:
  "set (opens (snd (attempts fx tries i le s))) \<subseteq> set (opens s) \<and>
   set (fixtures (snd (attempts fx tries i le s))) \<subseteq> set (fixtures s) \<and>
   warnings (trace (snd (attempts fx tries i le s))) = warnings (trace s)"
  by (rule attempts_rule[where P = "\<lambda>i le s res.
        set (opens (snd res)) \<subseteq> set (opens s) \<and> set (fixtures (snd res)) \<subseteq> set (fixtures s) \<and>
        warnings (trace (snd res)) = warnings (trace s)"])
     (auto simp: warnings_append)

lemma attempts_Raised:
  "fst (attempts fx tries i le s) = Raised e \<longrightarrow> recon_only s \<longrightarrow> int i \<le> tries \<longrightarrow>
     (\<forall>x. le = Some x \<longrightarrow> x \<in> set recon_errors) \<longrightarrow> (le = None \<longrightarrow> int i < tries) \<longrightarrow>
     e \<in> set recon_errors \<and> last (trace (snd (attempts fx tries i le s))) = Log_exception \<and>
     count_list (trace (snd (attempts fx tries i le s))) Open_ws
       = count_list (trace s) Open_ws + nat (tries - int i)"
proof (rule attempts_rule[where P = "\<lambda>i le s res.
     fst res = Raised e \<longrightarrow> recon_only s \<longrightarrow> int i \<le> tries \<longrightarrow>
     (\<forall>x. le = Some x \<longrightarrow> x \<in> set recon_errors) \<longrightarrow> (le = None \<longrightarrow> int i < tries) \<longrightarrow>
     e \<in> set recon_errors \<and> last (trace (snd res)) = Log_exception \<and>
     count_list (trace (snd res)) Open_ws = count_list (trace s) Open_ws + nat (tries - int i)"],
    goal_cases)
  case (1 i le s)
  then show ?case by (auto split: option.splits)
next
  case (4 i le s e' rs)
  then show ?case by (auto simp: recon_only_def nat_diff_distrib)
next
  case (10 i le s rs e' fs)
  then show ?case by (auto simp: recon_only_def nat_diff_distrib)
qed (auto simp: recon_only_def)

lemma close_loop_recon_only: "recon_only (snd (close_loop s)) = recon_only s"
  using close_loop_frame[of s] by (simp add: recon_only_def)

lemma connect_keeps:
  assumes "connect fx tries s = (r, s1)"
  shows "set (opens s1) \<subseteq> set (opens s) \<and> set (fixtures s1) \<subseteq> set (fixtures s) \<and>
         warnings (trace s1) = warnings (trace s)"
proof -
  obtain r0 s0 where c: "close_loop s = (r0, s0)" by (cases "close_loop s")
  have k: "opens s0 = opens s" "fixtures s0 = fixtures s" "warnings (trace s0) = warnings (trace s)"
    using close_loop_keeps[of s] c by simp_all
  show ?thesis
  proof (cases r0)
    case (Returns u)
    then have "attempts fx tries 0 None s0 = (r, s1)" using assms c by (simp add: connect_def)
    then show ?thesis using attempts_keeps[of fx tries 0 None s0] k by simp
  next
    case (Raised e)
    then show ?thesis using assms c k by (auto simp: connect_def)
  next
    case Blocked
    then show ?thesis using assms c k by (auto simp: connect_def)
  qed
qed

lemma connect_recon_only:
  assumes "connect fx tries s = (r, s1)" and "recon_only s"
  shows "recon_only s1"
  using connect_keeps[OF assms(1)] connect_frame[OF assms(1)] assms(2)
  by (auto simp: recon_only_def list_all_iff)

lemma connect_Raised:
  assumes "connect fx tries s = (Raised e, s1)" and "recon_only s" and "0 < tries"
  shows "(e \<in> set recon_errors \<and> last (trace s1) = Log_exception \<and>
          count_list (trace s1) Open_ws = count_list (trace s) Open_ws + nat tries)
       \<or> (e \<noteq> DisconnectionTimeout \<and> e \<noteq> RuntimeError \<and> last (trace s1) = Aclose \<and>
          count_list (trace s1) Open_ws = count_list (trace s) Open_ws)"
proof -
  obtain r0 s0 where c: "close_loop s = (r0, s0)" by (cases "close_loop s")
  have k: "count_list (trace s0) Open_ws = count_list (trace s) Open_ws"
    using close_loop_keeps[of s] c by simp
  have ro: "recon_only s0" using close_loop_recon_only[of s] c assms(2) by simp
  show ?thesis
  proof (cases r0)
    case (Returns u)
    then have "attempts fx tries 0 None s0 = (Raised e, s1)"
      using assms(1) c by (simp add: connect_def)
    then show ?thesis using attempts_Raised[of fx tries 0 None s0 e] ro assms(3) k by simp
  next
    case (Raised e')
    then have "e' = e" "s0 = s1" using assms(1) c by (simp_all add: connect_def)
    then show ?thesis using close_loop_Raised[of s e] c Raised k by simp
  next
    case Blocked
    then show ?thesis using assms(1) c by (simp add: connect_def)
  qed
qed

section \<open>Exhausting the retry budget\<close>

lemma close_loop_retry:
  "closes s = map Some ds @ None # cs \<Longrightarrow> set ds \<subseteq> {DisconnectionTimeout, RuntimeError} \<Longrightarrow>
   close_loop s =
     (Returns (), s\<lparr>closes := cs,
         trace := trace s @ concat (map (\<lambda>d. [Aclose, Sleep 500]) ds) @ [Aclose]\<rparr>)"
proof (induction ds arbitrary: s)
  case Nil
  then show ?case by (simp add: close_loop_ok)
next
  case (Cons d ds)
  let ?s1 = "s\<lparr>closes := map Some ds @ None # cs, trace := trace s @ [Aclose, Sleep 500]\<rparr>"
  have d: "d = DisconnectionTimeout \<or> d = RuntimeError" using Cons.prems(2) by auto
  have "close_loop s = close_loop ?s1"
    using Cons.prems(1) d by (intro close_loop_again) auto
  also have "\<dots> = (Returns (), ?s1\<lparr>closes := cs,
         trace := trace ?s1 @ concat (map (\<lambda>d. [Aclose, Sleep 500]) ds) @ [Aclose]\<rparr>)"
    using Cons.prems(2) by (intro Cons.IH) auto
  finally show ?case by simp
qed

lemma attempts_all_fail:
  "opens s = map Some es @ os \<Longrightarrow> set es \<subseteq> set recon_errors \<Longrightarrow>
   int (i + length es) = tries \<Longrightarrow>
   attempts fx tries i le s =
     (Raised (case last (le # map Some es) of None \<Rightarrow> TypeError | Some e \<Rightarrow> e),
      s\<lparr>opens := os,
        trace := trace s @ concat (map (\<lambda>(j, e). [Open_ws, Log_error e j, Sleep 500]) (enumerate i es))
                   @ [Log_exception]\<rparr>)"
proof (induction es arbitrary: s i le)
  case Nil
  then have ge: "\<not> int i < tries" and o: "s\<lparr>opens := os\<rparr> = s" by auto
  show ?case unfolding attempts_done[OF ge] using o by (cases le) simp_all
next
  case (Cons e es)
  let ?s1 = "s\<lparr>opens := map Some es @ os, trace := trace s @ [Open_ws, Log_error e i, Sleep 500]\<rparr>"
  have e: "e \<in> set recon_errors" using Cons.prems(2) by simp
  have lt: "int i < tries" using Cons.prems(3) by simp
  have "attempts fx tries i le s = attempts fx tries (Suc i) (Some e) ?s1"
    using Cons.prems(1) e lt by (intro attempts_open_retry) auto
  also have "\<dots> = (Raised (case last (Some e # map Some es) of None \<Rightarrow> TypeError | Some e \<Rightarrow> e),
      ?s1\<lparr>opens := os,
        trace := trace ?s1 @ concat (map (\<lambda>(j, e). [Open_ws, Log_error e j, Sleep 500]) (enumerate (Suc i) es))
                   @ [Log_exception]\<rparr>)"
    using Cons.prems(2,3) by (intro Cons.IH) auto
  finally show ?case by simp
qed

lemma count_attempts_trace:
  "length (filter (\<lambda>a. a = Open_ws)
     (concat (map (\<lambda>(j, e). [Open_ws, Log_error e j, Sleep 500]) (enumerate i es)))) = length es"
  by (induction es arbitrary: i) simp_all

lemma count_sleeps_trace:
  "length (filter (\<lambda>a. a = Sleep 500)
     (concat (map (\<lambda>(j, e). [Open_ws, Log_error e j, Sleep 500]) (enumerate i es)))) = length es"
  by (induction es arbitrary: i) simp_all

text \<open>
  C2. A channel whose stack closes (after any number of DisconnectionTimeout or
  RuntimeError retries of the close) and whose connect attempt then fails with a
  recoverable transport error on every one of the \<open>tries\<close> tries: \<open>_connect\<close>
  makes exactly \<open>tries\<close> attempts, sleeps 0.5 s after each of them, and then raises
  once, the error of the last attempt. The trace of the call is given in full;
  it holds \<open>tries\<close> attempts and \<open>tries\<close> sleeps after the close. The budget is the
  argument \<open>tries\<close>, for which \<open>send_msg\<close>, \<open>recv_msg\<close> and \<open>open_autorecon_ws\<close>
  pass the default 1000.
\<close>

theorem connect_exhausts_budget:
  assumes "closes s = map Some ds @ None # cs"
    and "set ds \<subseteq> {DisconnectionTimeout, RuntimeError}"
    and "opens s = map Some es @ os"
    and "set es \<subseteq> set recon_errors"
    and "int (length es) = tries"
    and "0 < tries"
  shows "connect fx tries s =
     (Raised (last es),
      s\<lparr>closes := cs, opens := os,
        trace := trace s @ concat (map (\<lambda>d. [Aclose, Sleep 500]) ds) @ [Aclose]
                   @ concat (map (\<lambda>(j, e). [Open_ws, Log_error e j, Sleep 500]) (enumerate 0 es))
                   @ [Log_exception]\<rparr>)
     \<and> int (length (filter (\<lambda>a. a = Open_ws)
           (concat (map (\<lambda>(j, e). [Open_ws, Log_error e j, Sleep 500]) (enumerate 0 es))))) = tries
     \<and> int (length (filter (\<lambda>a. a = Sleep 500)
           (concat (map (\<lambda>(j, e). [Open_ws, Log_error e j, Sleep 500]) (enumerate 0 es))))) = tries
     \<and> last es \<in> set recon_errors"
proof -
  have ne: "es \<noteq> []" using assms(5,6) by auto
  let ?s1 = "s\<lparr>closes := cs, trace := trace s @ concat (map (\<lambda>d. [Aclose, Sleep 500]) ds) @ [Aclose]\<rparr>"
  have c: "close_loop s = (Returns (), ?s1)"
    using assms(1,2) by (rule close_loop_retry)
  have l: "last (None # map Some es) = Some (last es)"
    using ne by (simp add: last_map)
  have a: "attempts fx tries 0 None ?s1 =
     (Raised (case last (None # map Some es) of None \<Rightarrow> TypeError | Some e \<Rightarrow> e),
      ?s1\<lparr>opens := os,
        trace := trace ?s1 @ concat (map (\<lambda>(j, e). [Open_ws, Log_error e j, Sleep 500]) (enumerate 0 es))
                   @ [Log_exception]\<rparr>)"
    using assms(3,4,5) by (intro attempts_all_fail) auto
  have "connect fx tries s =
     (Raised (last es),
      s\<lparr>closes := cs, opens := os,
        trace := trace s @ concat (map (\<lambda>d. [Aclose, Sleep 500]) ds) @ [Aclose]
                   @ concat (map (\<lambda>(j, e). [Open_ws, Log_error e j, Sleep 500]) (enumerate 0 es))
                   @ [Log_exception]\<rparr>)"
    unfolding connect_def c using a l by simp
  moreover have "last es \<in> set recon_errors"
    using ne assms(4) last_in_set by blast
  ultimately show ?thesis
    using assms(5) by (simp only: count_attempts_trace count_sleeps_trace simp_thms)
qed

theorem connect_exhausts_budget_witness:
  "connect False 3
     \<lparr>closes = [Some DisconnectionTimeout, None],
      opens = [Some ConnectionClosed, Some HandshakeError, Some ConnectionTimeout, None],
      fixtures = [], sends = [], recvs = [], trace = [], has_ws = True\<rparr>
   = (Raised ConnectionTimeout,
      \<lparr>closes = [], opens = [None], fixtures = [], sends = [], recvs = [],
       trace = [Aclose, Sleep 500, Aclose,
                Open_ws, Log_error ConnectionClosed 0, Sleep 500,
                Open_ws, Log_error HandshakeError 1, Sleep 500,
                Open_ws, Log_error ConnectionTimeout 2, Sleep 500,
                Log_exception],
       has_ws = True\<rparr>)"
  using connect_exhausts_budget
          [of "\<lparr>closes = [Some DisconnectionTimeout, None],
                opens = [Some ConnectionClosed, Some HandshakeError, Some ConnectionTimeout, None],
                fixtures = [], sends = [], recvs = [], trace = [], has_ws = True\<rparr>"
              "[DisconnectionTimeout]" "[]"
              "[ConnectionClosed, HandshakeError, ConnectionTimeout]" "[None]" 3 False]
  by (simp add: recon_errors_def enumerate_eq_zip upt_rec)

section \<open>The post-connect fixture\<close>

text \<open>
  C7, as the code has it. On a connect attempt whose link is established and with a
  fixture registered, the fixture is entered before \<open>_connect\<close> returns. If it
  completes and yields None the attempt succeeds. If it raises a recoverable
  transport error the attempt counts as failed: the error is recorded and logged, the
  delay is slept and the loop goes on with the next try. If it raises any other
  error, that error leaves \<open>_connect\<close> at once, with no retry; and if it yields
  something other than None, the assertion fails in the same way.
\<close>

theorem fixture_hook_outcomes:
  assumes "int i < tries" and "opens s = None # rs" and "fixtures s = f # fs"
  shows "(f = Inr True \<longrightarrow>
            attempts True tries i le s =
              (Returns (),
               s\<lparr>opens := rs, fixtures := fs,
                 trace := trace s @ [Open_ws, Enter_fixture, Log_info], has_ws := True\<rparr>))
       \<and> (\<forall>e. f = Inl e \<and> e \<in> set recon_errors \<longrightarrow>
            attempts True tries i le s =
              attempts True tries (Suc i) (Some e)
                (s\<lparr>opens := rs, fixtures := fs,
                   trace := trace s @ [Open_ws, Enter_fixture, Log_error e i, Sleep 500],
                   has_ws := True\<rparr>))
       \<and> (\<forall>e. f = Inl e \<and> e \<notin> set recon_errors \<longrightarrow>
            attempts True tries i le s =
              (Raised e,
               s\<lparr>opens := rs, fixtures := fs,
                 trace := trace s @ [Open_ws, Enter_fixture], has_ws := True\<rparr>))
       \<and> (f = Inr False \<longrightarrow>
            attempts True tries i le s =
              (Raised AssertionError,
               s\<lparr>opens := rs, fixtures := fs,
                 trace := trace s @ [Open_ws, Enter_fixture], has_ws := True\<rparr>))"
  using assms
  by (simp add: attempts_fixture_ok attempts_fixture_retry attempts_fixture_raise
        attempts_fixture_assert)

theorem fixture_hook_outcomes_witness:
  "attempts True 1000 0 None
     \<lparr>closes = [], opens = [None, None], fixtures = [Inl ConnectionClosed, Inr True],
      sends = [], recvs = [], trace = [], has_ws = False\<rparr>
   = (Returns (),
      \<lparr>closes = [], opens = [], fixtures = [], sends = [], recvs = [],
       trace = [Open_ws, Enter_fixture, Log_error ConnectionClosed 0, Sleep 500,
                Open_ws, Enter_fixture, Log_info],
       has_ws = True\<rparr>)"
  using fixture_hook_outcomes
          [of 0 1000
              "\<lparr>closes = [], opens = [None, None], fixtures = [Inl ConnectionClosed, Inr True],
                sends = [], recvs = [], trace = [], has_ws = False\<rparr>"
              "[None]" "Inl ConnectionClosed" "[Inr True]" None]
        fixture_hook_outcomes
          [of 1 1000
              "\<lparr>closes = [], opens = [None], fixtures = [Inr True],
                sends = [], recvs = [],
                trace = [Open_ws, Enter_fixture, Log_error ConnectionClosed 0, Sleep 500],
                has_ws = True\<rparr>"
              "[]" "Inr True" "[]" "Some ConnectionClosed"]
  by (simp add: recon_errors_def)

text \<open>
  The claim as stated fails for an error that is not a recoverable transport error:
  here the fixture raises KeyError on the first of 1000 tries. \<open>_connect\<close> raises it
  after that single attempt, although counting the attempt as a failed try and going
  on (the second line) would have connected.
\<close>

theorem fixture_hook_counterexample:
  "connect True 1000
     \<lparr>closes = [None], opens = [None, None], fixtures = [Inl KeyError, Inr True],
      sends = [], recvs = [], trace = [], has_ws = False\<rparr>
   = (Raised KeyError,
      \<lparr>closes = [], opens = [None], fixtures = [Inr True], sends = [], recvs = [],
       trace = [Aclose, Open_ws, Enter_fixture], has_ws = True\<rparr>)
   \<and> fst (attempts True 1000 1 (Some KeyError)
          \<lparr>closes = [], opens = [None], fixtures = [Inr True], sends = [], recvs = [],
           trace = [Aclose, Open_ws, Enter_fixture], has_ws = True\<rparr>) = Returns ()"
  by (simp add: connect_def close_loop_ok attempts_fixture_raise attempts_fixture_ok
        recon_errors_def)

section \<open>Immutable reqid bindings\<close>

lemma on_brokerd_ack_bound:
  assumes "tbl k = Some d" and "dialog_reqid d = Some R"
  shows "\<exists>d'. snd (on_brokerd_ack a tbl) k = Some d' \<and> dialog_reqid d' = Some R"
proof (cases "oid a = k")
  case True
  then show ?thesis using assms by (simp add: on_brokerd_ack_def)
next
  case False
  then show ?thesis using assms
    by (auto simp: on_brokerd_ack_def split: option.splits)
qed

lemma on_brokerd_acks_bound:
  "tbl k = Some d \<Longrightarrow> dialog_reqid d = Some R \<Longrightarrow>
   \<exists>d'. on_brokerd_acks acks tbl k = Some d' \<and> dialog_reqid d' = Some R"
proof (induction acks arbitrary: tbl d)
  case Nil
  then show ?case by simp
next
  case (Cons a acks)
  from on_brokerd_ack_bound[of tbl k d R a] Cons.prems
  obtain d1 where d1: "snd (on_brokerd_ack a tbl) k = Some d1" "dialog_reqid d1 = Some R" by blast
  from Cons.IH[of "snd (on_brokerd_ack a tbl)" d1] d1 show ?case by simp
qed

text \<open>
  C6. Once \<open>on_brokerd_ack\<close> has bound the reqid \<open>R\<close> of a first ack to the
  dialog \<open>k\<close>, then after any sequence of later acks the dialog is still bound to
  \<open>R\<close>, and a further ack for \<open>k\<close> with a different reqid fails with RebindError
  and leaves the table, and so the binding, as it was.
\<close>

theorem reqid_binding_immutable:
  assumes "tbl k = Some d" and "dialog_reqid d = None"
    and "oid a = k" and "reqid a = R"
  shows "fst (on_brokerd_ack a tbl) = None
       \<and> (\<forall>acks a'.
            (\<exists>d'. on_brokerd_acks acks (snd (on_brokerd_ack a tbl)) k = Some d'
                  \<and> dialog_reqid d' = Some R)
          \<and> (oid a' = k \<and> reqid a' \<noteq> R \<longrightarrow>
               on_brokerd_ack a' (on_brokerd_acks acks (snd (on_brokerd_ack a tbl)))
                 = (Some RebindError, on_brokerd_acks acks (snd (on_brokerd_ack a tbl)))))"
proof -
  let ?t1 = "snd (on_brokerd_ack a tbl)"
  have first: "fst (on_brokerd_ack a tbl) = None"
    and b1: "?t1 k = Some (d\<lparr>dialog_reqid := Some R\<rparr>)"
    using assms by (simp_all add: on_brokerd_ack_def)
  have later: "\<exists>d'. on_brokerd_acks acks ?t1 k = Some d' \<and> dialog_reqid d' = Some R" for acks
    using on_brokerd_acks_bound[of ?t1 k "d\<lparr>dialog_reqid := Some R\<rparr>" R acks] b1 by simp
  have rebind: "on_brokerd_ack a' (on_brokerd_acks acks ?t1) = (Some RebindError, on_brokerd_acks acks ?t1)"
    if "oid a' = k" "reqid a' \<noteq> R" for acks a'
  proof -
    from later[of acks] obtain d' where "on_brokerd_acks acks ?t1 k = Some d'" "dialog_reqid d' = Some R"
      by blast
    then show ?thesis using that by (auto simp: on_brokerd_ack_def)
  qed
  show ?thesis using first later rebind by blast
qed

theorem reqid_binding_immutable_witness:
  "on_brokerd_ack \<lparr>name = ''ack'', reqid = Inr ''b2'', oid = ''a1'', account = ''''\<rparr>
     (on_brokerd_acks [\<lparr>name = ''ack'', reqid = Inr ''b1'', oid = ''a1'', account = ''''\<rparr>]
        (snd (on_brokerd_ack \<lparr>name = ''ack'', reqid = Inr ''b1'', oid = ''a1'', account = ''''\<rparr>
                [''a1'' \<mapsto> \<lparr>dialog_reqid = None\<rparr>])))
   = (Some RebindError,
      on_brokerd_acks [\<lparr>name = ''ack'', reqid = Inr ''b1'', oid = ''a1'', account = ''''\<rparr>]
        (snd (on_brokerd_ack \<lparr>name = ''ack'', reqid = Inr ''b1'', oid = ''a1'', account = ''''\<rparr>
                [''a1'' \<mapsto> \<lparr>dialog_reqid = None\<rparr>])))
   \<and> (\<exists>d'. on_brokerd_acks [\<lparr>name = ''ack'', reqid = Inr ''b2'', oid = ''a1'', account = ''''\<rparr>]
        (snd (on_brokerd_ack \<lparr>name = ''ack'', reqid = Inr ''b1'', oid = ''a1'', account = ''''\<rparr>
                [''a1'' \<mapsto> \<lparr>dialog_reqid = None\<rparr>])) ''a1'' = Some d'
        \<and> dialog_reqid d' = Some (Inr ''b1''))"
  using reqid_binding_immutable
          [of "[''a1'' \<mapsto> \<lparr>dialog_reqid = None\<rparr>]" "''a1''" "\<lparr>dialog_reqid = None\<rparr>"
              "\<lparr>name = ''ack'', reqid = Inr ''b1'', oid = ''a1'', account = ''''\<rparr>" "Inr ''b1''"]
  by (simp add: on_brokerd_ack_def)

section \<open>Validation at construction\<close>

lemma construct_fields_missing:
  "f \<in> set fs \<Longrightarrow> fdefault f = None \<Longrightarrow> map_of kw (fname f) = None \<Longrightarrow>
   construct_fields fs kw = Inl SchemaError"
  by (induction fs) (auto split: option.splits sum.splits)

lemma construct_fields_bad_literal:
  "f \<in> set fs \<Longrightarrow> literals f = Some ls \<Longrightarrow> map_of kw (fname f) = Some v \<Longrightarrow>
   v \<notin> set (map PStr ls) \<Longrightarrow> construct_fields fs kw = Inl SchemaError"
  by (induction fs) (auto split: option.splits sum.splits)

lemma construct_fields_names:
  "construct_fields fs kw = Inr m \<Longrightarrow> map fst m = map fname fs"
  by (induction fs arbitrary: m) (auto split: option.splits sum.splits if_splits)

lemma construct_fields_default:
  "construct_fields fs kw = Inr m \<Longrightarrow> distinct (map fname fs) \<Longrightarrow> f \<in> set fs \<Longrightarrow>
   fdefault f = Some d \<Longrightarrow> map_of kw (fname f) = None \<Longrightarrow> map_of m (fname f) = Some d"
proof (induction fs arbitrary: m)
  case Nil
  then show ?case by simp
next
  case (Cons g fs)
  from Cons.prems(1) obtain v m' where m: "m = (fname g, v) # m'"
    and m': "construct_fields fs kw = Inr m'"
    by (auto split: option.splits sum.splits if_splits)
  show ?case
  proof (cases "f = g")
    case True
    with Cons.prems m m' show ?thesis by (auto split: option.splits sum.splits if_splits)
  next
    case False
    with Cons.prems(2,3) have ne: "fname g \<noteq> fname f" and d: "distinct (map fname fs)"
      and fin: "f \<in> set fs" by auto
    from Cons.IH[OF m' d fin Cons.prems(4,5)] ne m show ?thesis by simp
  qed
qed

lemma taxonomy_distinct: "sch \<in> set taxonomy \<Longrightarrow> distinct (map fname (snd sch))"
  by (auto simp: taxonomy_def Order_fields_def Cancel_fields_def Status_fields_def
      BrokerdCancel_fields_def BrokerdOrder_fields_def BrokerdOrderAck_fields_def
      BrokerdStatus_fields_def BrokerdFill_fields_def BrokerdError_fields_def
      BrokerdPosition_fields_def required_def literal_def with_default_def)

text \<open>
  C5. For every message class of the taxonomy: construction with a field that has no
  default left out fails with SchemaError; construction with a value for a
  \<open>Literal\<close> field (such as \<open>Order.action\<close> or \<open>Order.exec_mode\<close>) that is not one
  of the declared strings fails with SchemaError; and leaving out a field that has a
  default is no error by itself: when construction succeeds, the message holds the
  declared default for it.
\<close>

theorem construct_validates:
  assumes "sch \<in> set taxonomy" and "f \<in> set (snd sch)"
  shows "(fdefault f = None \<and> map_of kw (fname f) = None \<longrightarrow>
            construct (snd sch) kw = Inl SchemaError)
       \<and> (\<forall>ls v. literals f = Some ls \<and> map_of kw (fname f) = Some v \<and> v \<notin> set (map PStr ls) \<longrightarrow>
            construct (snd sch) kw = Inl SchemaError)
       \<and> (\<forall>d m. fdefault f = Some d \<and> map_of kw (fname f) = None \<and> construct (snd sch) kw = Inr m \<longrightarrow>
            map_of m (fname f) = Some d)"
proof -
  have "construct (snd sch) kw = Inl SchemaError"
    if "fdefault f = None" "map_of kw (fname f) = None"
    using construct_fields_missing[OF assms(2) that] by (simp add: construct_def)
  moreover have "construct (snd sch) kw = Inl SchemaError"
    if "literals f = Some ls" "map_of kw (fname f) = Some v" "v \<notin> set (map PStr ls)" for ls v
    using construct_fields_bad_literal[OF assms(2) that] by (simp add: construct_def)
  moreover have "map_of m (fname f) = Some d"
    if "fdefault f = Some d" "map_of kw (fname f) = None" "construct (snd sch) kw = Inr m" for d m
  proof -
    from that(3) have "construct_fields (snd sch) kw = Inr m"
      by (simp add: construct_def split: if_splits)
    from construct_fields_default[OF this taxonomy_distinct[OF assms(1)] assms(2) that(1,2)]
    show ?thesis .
  qed
  ultimately show ?thesis by blast
qed

theorem construct_validates_witness:
  "construct Order_fields
     [(''action'', PStr ''buy''), (''exec_mode'', PStr ''paper''), (''oid'', PStr ''a1''),
      (''symbol'', PStr ''XBTUSD''), (''account'', PStr ''acct1''), (''price'', PInt 100),
      (''size'', PInt 1)] = Inl SchemaError
   \<and> construct Order_fields
     [(''action'', PStr ''buy''), (''exec_mode'', PStr ''live''), (''oid'', PStr ''a1''),
      (''symbol'', PStr ''XBTUSD''), (''account'', PStr ''acct1''), (''size'', PInt 1)]
       = Inl SchemaError
   \<and> construct Order_fields
     [(''action'', PStr ''buy''), (''exec_mode'', PStr ''live''), (''oid'', PStr ''a1''),
      (''symbol'', PStr ''XBTUSD''), (''account'', PStr ''acct1''), (''price'', PInt 100),
      (''size'', PInt 1)]
       = Inr [(''action'', PStr ''buy''), (''exec_mode'', PStr ''live''), (''oid'', PStr ''a1''),
              (''symbol'', PStr ''XBTUSD''), (''account'', PStr ''acct1''),
              (''price'', PInt 100), (''size'', PInt 1), (''brokers'', PList [])]"
  using construct_validates
          [of "(''Order'', Order_fields)" "literal ''exec_mode'' [''dark'', ''live'']"
              "[(''action'', PStr ''buy''), (''exec_mode'', PStr ''paper''), (''oid'', PStr ''a1''),
                (''symbol'', PStr ''XBTUSD''), (''account'', PStr ''acct1''), (''price'', PInt 100),
                (''size'', PInt 1)]"]
        construct_validates
          [of "(''Order'', Order_fields)" "required ''price''"
              "[(''action'', PStr ''buy''), (''exec_mode'', PStr ''live''), (''oid'', PStr ''a1''),
                (''symbol'', PStr ''XBTUSD''), (''account'', PStr ''acct1''), (''size'', PInt 1)]"]
  by (simp add: taxonomy_def Order_fields_def required_def literal_def with_default_def
        construct_def)

section \<open>Responses: matched, with an error field, unmatched\<close>

lemma deliver_matched:
  assumes "rpc_results st (id' msg) = Some sl"
  shows "deliver c msg st =
     (Returns (),
      st\<lparr>rpc_results := (rpc_results st)(id' msg \<mapsto> sl\<lparr>slot_result := Some msg, event_set := True\<rparr>)\<rparr>)"
  using assms by (simp add: deliver_def)

text \<open>
  C4, as the code has it. A call \<open>n\<close> has its slot pending and the receive task
  delivers the response \<open>ret\<close> with that id. If the error field of \<open>ret\<close> is not
  None, the resumed call raises \<open>Exception\<close> whose message is the JSON text (indent 4)
  of the error payload, and returns nothing. If the error field is None, the call
  returns \<open>ret\<close>, the whole response record, whose \<open>result\<close> field is the result
  payload. In both cases the slot is gone afterwards.
\<close>

theorem json_rpc_error_or_response:
  assumes "rpc_results st n = Some sl" and "id' ret = n"
  shows "fst (deliver c ret st) = Returns ()
       \<and> (\<forall>text. error ret \<noteq> PNone \<and> dumps_indent c (error ret) = Inr text \<longrightarrow>
            json_rpc_wait c n (snd (deliver c ret st)) =
              (Raised (Exception text),
               st\<lparr>rpc_results := (rpc_results st)(n := None)\<rparr>))
       \<and> (error ret = PNone \<longrightarrow>
            json_rpc_wait c n (snd (deliver c ret st)) =
              (Returns ret, st\<lparr>rpc_results := (rpc_results st)(n := None)\<rparr>))"
  using assms by (simp add: deliver_def json_rpc_wait_def)

theorem json_rpc_error_or_response_witness:
  "json_rpc_wait
     \<lparr>dumps = (\<lambda>v. Inr ''x''), dumps_indent = (\<lambda>v. Inr ''code 13''),
      dumps_struct = (\<lambda>r. Inl TypeError), loads = (\<lambda>t. Inr PNone),
      dtype = (\<lambda>v. Inl TypeError)\<rparr>
     0
     (snd (deliver
        \<lparr>dumps = (\<lambda>v. Inr ''x''), dumps_indent = (\<lambda>v. Inr ''code 13''),
         dumps_struct = (\<lambda>r. Inl TypeError), loads = (\<lambda>t. Inr PNone),
         dtype = (\<lambda>v. Inl TypeError)\<rparr>
        \<lparr>jsonrpc = ''2.0'', id' = 0, result = PNone, error = PDict [(''code'', PInt 13)]\<rparr>
        \<lparr>ws = \<lparr>closes = [], opens = [], fixtures = [], sends = [], recvs = [], trace = [],
                has_ws = True\<rparr>,
         rpc_id = 1,
         rpc_results = [0 \<mapsto> \<lparr>slot_result = None, event_set = False\<rparr>]\<rparr>))
   = (Raised (Exception ''code 13''),
      \<lparr>ws = \<lparr>closes = [], opens = [], fixtures = [], sends = [], recvs = [], trace = [],
              has_ws = True\<rparr>,
       rpc_id = 1,
       rpc_results = [0 \<mapsto> \<lparr>slot_result = None, event_set = False\<rparr>](0 := None)\<rparr>)"
  using json_rpc_error_or_response
          [of "\<lparr>ws = \<lparr>closes = [], opens = [], fixtures = [], sends = [], recvs = [], trace = [],
                      has_ws = True\<rparr>,
                rpc_id = 1,
                rpc_results = [0 \<mapsto> \<lparr>slot_result = None, event_set = False\<rparr>]\<rparr>"
              0 "\<lparr>slot_result = None, event_set = False\<rparr>"
              "\<lparr>jsonrpc = ''2.0'', id' = 0, result = PNone, error = PDict [(''code'', PInt 13)]\<rparr>"
              "\<lparr>dumps = (\<lambda>v. Inr ''x''), dumps_indent = (\<lambda>v. Inr ''code 13''),
                dumps_struct = (\<lambda>r. Inl TypeError), loads = (\<lambda>t. Inr PNone),
                dtype = (\<lambda>v. Inl TypeError)\<rparr>"]
  by simp

text \<open>
  The claim as stated fails where it says that the call returns the result payload:
  for the response with result \<open>{"ok": true}\<close> and no error the call returns the
  response record, with its \<open>jsonrpc\<close>, \<open>id\<close> and \<open>error\<close> fields.
\<close>

theorem json_rpc_returns_response_counterexample:
  "fst (json_rpc_wait
     \<lparr>dumps = (\<lambda>v. Inr ''x''), dumps_indent = (\<lambda>v. Inr ''x''),
      dumps_struct = (\<lambda>r. Inl TypeError), loads = (\<lambda>t. Inr PNone),
      dtype = (\<lambda>v. Inl TypeError)\<rparr>
     0
     \<lparr>ws = \<lparr>closes = [], opens = [], fixtures = [], sends = [], recvs = [], trace = [],
             has_ws = True\<rparr>,
      rpc_id = 1,
      rpc_results =
        [0 \<mapsto> \<lparr>slot_result =
                   Some \<lparr>jsonrpc = ''2.0'', id' = 0, result = PDict [(''ok'', PBool True)],
                         error = PNone\<rparr>,
                 event_set = True\<rparr>]\<rparr>)
   = Returns \<lparr>jsonrpc = ''2.0'', id' = 0, result = PDict [(''ok'', PBool True)], error = PNone\<rparr>"
  by (simp add: json_rpc_wait_def)

text \<open>
  What \<open>setdefault\<close> does with a frame whose id has no entry, on the path where
  the warning line can be built (\<open>json.dumps\<close> accepts what \<open>dtype\<close> made): the
  frame is logged and an entry is created for its id, holding the frame and an event
  that is set.
\<close>

lemma unmatched_frame_setdefault:
  assumes "recv_msg False (loads c) (ws st) = (Returns m, s1)"
    and "dtype c m = Inr msg"
    and "rpc_results st (id' msg) = None"
    and "dumps_struct c msg = Inr text"
  shows "recv_task_step c st =
     (Returns (),
      \<lparr>ws = s1\<lparr>trace := trace s1 @ [Log_warning text]\<rparr>,
       rpc_id = rpc_id st,
       rpc_results = (rpc_results st)(id' msg \<mapsto> \<lparr>slot_result = Some msg, event_set = True\<rparr>)\<rparr>)"
  using assms by (simp add: recv_task_step_def deliver_def)

text \<open>
  On the path where \<open>json.dumps\<close> rejects it, the exception leaves the loop before
  \<open>setdefault\<close> is reached.
\<close>

lemma unmatched_frame_warning_raises:
  assumes "recv_msg False (loads c) (ws st) = (Returns m, s1)"
    and "dtype c m = Inr msg"
    and "rpc_results st (id' msg) = None"
    and "dumps_struct c msg = Inl e"
  shows "recv_task_step c st = (Raised e, st\<lparr>ws := s1\<rparr>)"
  using assms by (simp add: recv_task_step_def deliver_def)

text \<open>
  C3. The claim is that a response frame whose id has no pending slot is logged and
  discarded, with \<open>rpc_results\<close> unchanged, and the receive loop goes on. The code
  does not do that. With the default \<open>dtype\<close> the frame is a \<open>JSONRPCResult\<close>
  struct, which \<open>json.dumps\<close> rejects with a TypeError; the f-string of the warning
  calls it, so for the frame with the unmatched id 7 nothing is logged and
  \<open>recv_task\<close> ends with that TypeError: the frame that follows is never read.
\<close>

theorem unmatched_frame_ends_recv_task:
  "recv_task_step
     \<lparr>dumps = (\<lambda>v. Inr ''x''), dumps_indent = (\<lambda>v. Inr ''x''),
        dumps_struct = (\<lambda>r. Inl TypeError), loads = (\<lambda>t. Inr (PDict [(''id'', PInt 7)])),
        dtype = (\<lambda>v. Inr \<lparr>jsonrpc = ''2.0'', id' = 7, result = PNone, error = PNone\<rparr>)\<rparr>
     \<lparr>ws = \<lparr>closes = [], opens = [], fixtures = [], sends = [],
             recvs = [Inr ''frame 7'', Inr ''frame 0''], trace = [], has_ws = True\<rparr>,
      rpc_id = 1, rpc_results = [0 \<mapsto> \<lparr>slot_result = None, event_set = False\<rparr>]\<rparr>
   = (Raised TypeError,
      \<lparr>ws = \<lparr>closes = [], opens = [], fixtures = [], sends = [],
              recvs = [Inr ''frame 0''], trace = [Get_message], has_ws = True\<rparr>,
       rpc_id = 1, rpc_results = [0 \<mapsto> \<lparr>slot_result = None, event_set = False\<rparr>]\<rparr>)"
  by (simp add: recv_task_step_def deliver_def recv_msg.simps)

section \<open>The steps of send and receive\<close>

lemma send_msg_no_ws:
  "\<not> has_ws s \<Longrightarrow> send_msg fx dmp data s = (Raised AttributeError, s)"
  by (subst send_msg.simps) simp

lemma send_msg_dumps_raise:
  "has_ws s \<Longrightarrow> dmp data = Inl e \<Longrightarrow> e \<notin> set recon_errors \<Longrightarrow>
   send_msg fx dmp data s = (Raised e, s)"
  by (subst send_msg.simps) simp

lemma send_msg_dumps_recon:
  "has_ws s \<Longrightarrow> dmp data = Inl e \<Longrightarrow> e \<in> set recon_errors \<Longrightarrow>
   send_msg fx dmp data s =
     (case connect fx 1000 s of
        (Returns u, s1) \<Rightarrow> send_msg fx dmp data s1
      | (Raised e1, s1) \<Rightarrow> (Raised e1, s1)
      | (Blocked, s1) \<Rightarrow> (Blocked, s1))"
  by (subst send_msg.simps) simp

lemma send_msg_Nil:
  "has_ws s \<Longrightarrow> dmp data = Inr t \<Longrightarrow> sends s = [] \<Longrightarrow>
   send_msg fx dmp data s = (Blocked, s)"
  by (subst send_msg.simps) simp

lemma send_msg_ok:
  "has_ws s \<Longrightarrow> dmp data = Inr t \<Longrightarrow> sends s = None # rs \<Longrightarrow>
   send_msg fx dmp data s =
     (Returns (), s\<lparr>sends := rs, trace := trace s @ [Send_message t]\<rparr>)"
  by (subst send_msg.simps) simp

lemma send_msg_raise:
  "has_ws s \<Longrightarrow> dmp data = Inr t \<Longrightarrow> sends s = Some e # rs \<Longrightarrow>
   e \<notin> set recon_errors \<Longrightarrow>
   send_msg fx dmp data s =
     (Raised e, s\<lparr>sends := rs, trace := trace s @ [Send_message t]\<rparr>)"
  by (subst send_msg.simps) simp

lemma send_msg_recon:
  "has_ws s \<Longrightarrow> dmp data = Inr t \<Longrightarrow> sends s = Some e # rs \<Longrightarrow>
   e \<in> set recon_errors \<Longrightarrow>
   send_msg fx dmp data s =
     (case connect fx 1000 (s\<lparr>sends := rs, trace := trace s @ [Send_message t]\<rparr>) of
        (Returns u, s1) \<Rightarrow> send_msg fx dmp data s1
      | (Raised e1, s1) \<Rightarrow> (Raised e1, s1)
      | (Blocked, s1) \<Rightarrow> (Blocked, s1))"
  by (subst send_msg.simps) simp

lemma recv_msg_no_ws:
  "\<not> has_ws s \<Longrightarrow> recv_msg fx lds s = (Raised AttributeError, s)"
  by (subst recv_msg.simps) simp

lemma recv_msg_Nil:
  "has_ws s \<Longrightarrow> recvs s = [] \<Longrightarrow> recv_msg fx lds s = (Blocked, s)"
  by (subst recv_msg.simps) simp

lemma recv_msg_ok:
  "has_ws s \<Longrightarrow> recvs s = r # rs \<Longrightarrow>
   (case r of Inl e \<Rightarrow> Inl e | Inr text \<Rightarrow> lds text) = Inr v \<Longrightarrow>
   recv_msg fx lds s = (Returns v, s\<lparr>recvs := rs, trace := trace s @ [Get_message]\<rparr>)"
  by (subst recv_msg.simps) simp

lemma recv_msg_raise:
  "has_ws s \<Longrightarrow> recvs s = r # rs \<Longrightarrow>
   (case r of Inl e \<Rightarrow> Inl e | Inr text \<Rightarrow> lds text) = Inl e \<Longrightarrow>
   e \<notin> set recon_errors \<Longrightarrow>
   recv_msg fx lds s = (Raised e, s\<lparr>recvs := rs, trace := trace s @ [Get_message]\<rparr>)"
  by (subst recv_msg.simps) simp

lemma recv_msg_recon:
  "has_ws s \<Longrightarrow> recvs s = r # rs \<Longrightarrow>
   (case r of Inl e \<Rightarrow> Inl e | Inr text \<Rightarrow> lds text) = Inl e \<Longrightarrow>
   e \<in> set recon_errors \<Longrightarrow>
   recv_msg fx lds s =
     (case connect fx 1000 (s\<lparr>recvs := rs, trace := trace s @ [Get_message]\<rparr>) of
        (Returns u, s1) \<Rightarrow> recv_msg fx lds s1
      | (Raised e1, s1) \<Rightarrow> (Raised e1, s1)
      | (Blocked, s1) \<Rightarrow> (Blocked, s1))"
  by (subst recv_msg.simps) simp

lemma send_msg_rule:
  assumes no_ws: "\<And>s. \<not> has_ws s \<Longrightarrow> P s (Raised AttributeError, s)"
    and d_raise: "\<And>s e. has_ws s \<Longrightarrow> dmp data = Inl e \<Longrightarrow> e \<notin> set recon_errors \<Longrightarrow>
           P s (Raised e, s)"
    and d_ret: "\<And>s e s1. has_ws s \<Longrightarrow> dmp data = Inl e \<Longrightarrow> e \<in> set recon_errors \<Longrightarrow>
           connect fx 1000 s = (Returns (), s1) \<Longrightarrow> P s1 (send_msg fx dmp data s1) \<Longrightarrow>
           P s (send_msg fx dmp data s1)"
    and d_rai: "\<And>s e e1 s1. has_ws s \<Longrightarrow> dmp data = Inl e \<Longrightarrow> e \<in> set recon_errors \<Longrightarrow>
           connect fx 1000 s = (Raised e1, s1) \<Longrightarrow> P s (Raised e1, s1)"
    and d_blk: "\<And>s e s1. has_ws s \<Longrightarrow> dmp data = Inl e \<Longrightarrow> e \<in> set recon_errors \<Longrightarrow>
           connect fx 1000 s = (Blocked, s1) \<Longrightarrow> P s (Blocked, s1)"
    and nil: "\<And>s t. has_ws s \<Longrightarrow> dmp data = Inr t \<Longrightarrow> sends s = [] \<Longrightarrow> P s (Blocked, s)"
    and ok: "\<And>s t rs. has_ws s \<Longrightarrow> dmp data = Inr t \<Longrightarrow> sends s = None # rs \<Longrightarrow>
           P s (Returns (), s\<lparr>sends := rs, trace := trace s @ [Send_message t]\<rparr>)"
    and s_raise: "\<And>s t e rs. has_ws s \<Longrightarrow> dmp data = Inr t \<Longrightarrow> sends s = Some e # rs \<Longrightarrow>
           e \<notin> set recon_errors \<Longrightarrow>
           P s (Raised e, s\<lparr>sends := rs, trace := trace s @ [Send_message t]\<rparr>)"
    and s_ret: "\<And>s t e rs s1. has_ws s \<Longrightarrow> dmp data = Inr t \<Longrightarrow> sends s = Some e # rs \<Longrightarrow>
           e \<in> set recon_errors \<Longrightarrow>
           connect fx 1000 (s\<lparr>sends := rs, trace := trace s @ [Send_message t]\<rparr>) = (Returns (), s1) \<Longrightarrow>
           P s1 (send_msg fx dmp data s1) \<Longrightarrow> P s (send_msg fx dmp data s1)"
    and s_rai: "\<And>s t e rs e1 s1. has_ws s \<Longrightarrow> dmp data = Inr t \<Longrightarrow> sends s = Some e # rs \<Longrightarrow>
           e \<in> set recon_errors \<Longrightarrow>
           connect fx 1000 (s\<lparr>sends := rs, trace := trace s @ [Send_message t]\<rparr>) = (Raised e1, s1) \<Longrightarrow>
           P s (Raised e1, s1)"
    and s_blk: "\<And>s t e rs s1. has_ws s \<Longrightarrow> dmp data = Inr t \<Longrightarrow> sends s = Some e # rs \<Longrightarrow>
           e \<in> set recon_errors \<Longrightarrow>
           connect fx 1000 (s\<lparr>sends := rs, trace := trace s @ [Send_message t]\<rparr>) = (Blocked, s1) \<Longrightarrow>
           P s (Blocked, s1)"
  shows "P s (send_msg fx dmp data s)"
proof (induction "length (sends s) + length (closes s)" arbitrary: s rule: less_induct)
  case less
  note IH = less
  show ?case
  proof (cases "has_ws s")
    case False
    then show ?thesis using no_ws by (simp add: send_msg_no_ws)
  next
    case ws: True
    show ?thesis
    proof (cases "dmp data")
      case (Inl e)
      show ?thesis
      proof (cases "e \<in> set recon_errors")
        case False
        with ws Inl show ?thesis using d_raise by (simp add: send_msg_dumps_raise)
      next
        case True
        obtain r s1 where c: "connect fx 1000 s = (r, s1)" by (cases "connect fx 1000 s")
        have eq: "send_msg fx dmp data s =
            (case r of Returns u \<Rightarrow> send_msg fx dmp data s1
             | Raised e1 \<Rightarrow> (Raised e1, s1) | Blocked \<Rightarrow> (Blocked, s1))"
          using ws Inl True c by (simp add: send_msg_dumps_recon)
        show ?thesis
        proof (cases r)
          case (Returns u)
          with c have c': "connect fx 1000 s = (Returns (), s1)" by simp
          from connect_frame[OF c'] have "length (sends s1) + length (closes s1) < length (sends s) + length (closes s)"
            by simp
          then have "P s1 (send_msg fx dmp data s1)" by (rule IH)
          with d_ret[OF ws Inl True c'] eq Returns show ?thesis by simp
        next
          case (Raised e1)
          with d_rai[OF ws Inl True] c eq show ?thesis by simp
        next
          case Blocked
          with d_blk[OF ws Inl True] c eq show ?thesis by simp
        qed
      qed
    next
      case (Inr t)
      show ?thesis
      proof (cases "sends s")
        case Nil
        with ws Inr show ?thesis using nil by (simp add: send_msg_Nil)
      next
        case (Cons x rs)
        show ?thesis
        proof (cases x)
          case None
          with ws Inr Cons show ?thesis using ok[of s t rs] by (simp add: send_msg_ok)
        next
          case (Some e)
          show ?thesis
          proof (cases "e \<in> set recon_errors")
            case False
            with ws Inr Cons Some show ?thesis using s_raise[of s t e rs]
              by (simp add: send_msg_raise)
          next
            case True
            let ?s' = "s\<lparr>sends := rs, trace := trace s @ [Send_message t]\<rparr>"
            have sn: "sends s = Some e # rs" using Cons Some by simp
            obtain r s1 where c: "connect fx 1000 ?s' = (r, s1)" by (cases "connect fx 1000 ?s'")
            have eq: "send_msg fx dmp data s =
                (case r of Returns u \<Rightarrow> send_msg fx dmp data s1
                 | Raised e1 \<Rightarrow> (Raised e1, s1) | Blocked \<Rightarrow> (Blocked, s1))"
              using ws Inr sn True c by (simp add: send_msg_recon)
            show ?thesis
            proof (cases r)
              case (Returns u)
              with c have c': "connect fx 1000 ?s' = (Returns (), s1)" by simp
              from connect_frame[OF c'] sn
              have "length (sends s1) + length (closes s1) < length (sends s) + length (closes s)"
                by simp
              then have "P s1 (send_msg fx dmp data s1)" by (rule IH)
              with s_ret[OF ws Inr sn True c'] eq Returns show ?thesis by simp
            next
              case (Raised e1)
              with s_rai[OF ws Inr sn True] c eq show ?thesis by simp
            next
              case Blocked
              with s_blk[OF ws Inr sn True] c eq show ?thesis by simp
            qed
          qed
        qed
      qed
    qed
  qed
qed

lemma recv_msg_rule:
  assumes no_ws: "\<And>s. \<not> has_ws s \<Longrightarrow> P s (Raised AttributeError, s)"
    and nil: "\<And>s. has_ws s \<Longrightarrow> recvs s = [] \<Longrightarrow> P s (Blocked, s)"
    and ok: "\<And>s r rs v. has_ws s \<Longrightarrow> recvs s = r # rs \<Longrightarrow>
           (case r of Inl e \<Rightarrow> Inl e | Inr text \<Rightarrow> lds text) = Inr v \<Longrightarrow>
           P s (Returns v, s\<lparr>recvs := rs, trace := trace s @ [Get_message]\<rparr>)"
    and r_raise: "\<And>s r rs e. has_ws s \<Longrightarrow> recvs s = r # rs \<Longrightarrow>
           (case r of Inl e \<Rightarrow> Inl e | Inr text \<Rightarrow> lds text) = Inl e \<Longrightarrow>
           e \<notin> set recon_errors \<Longrightarrow>
           P s (Raised e, s\<lparr>recvs := rs, trace := trace s @ [Get_message]\<rparr>)"
    and r_ret: "\<And>s r rs e s1. has_ws s \<Longrightarrow> recvs s = r # rs \<Longrightarrow>
           (case r of Inl e \<Rightarrow> Inl e | Inr text \<Rightarrow> lds text) = Inl e \<Longrightarrow>
           e \<in> set recon_errors \<Longrightarrow>
           connect fx 1000 (s\<lparr>recvs := rs, trace := trace s @ [Get_message]\<rparr>) = (Returns (), s1) \<Longrightarrow>
           P s1 (recv_msg fx lds s1) \<Longrightarrow> P s (recv_msg fx lds s1)"
    and r_rai: "\<And>s r rs e e1 s1. has_ws s \<Longrightarrow> recvs s = r # rs \<Longrightarrow>
           (case r of Inl e \<Rightarrow> Inl e | Inr text \<Rightarrow> lds text) = Inl e \<Longrightarrow>
           e \<in> set recon_errors \<Longrightarrow>
           connect fx 1000 (s\<lparr>recvs := rs, trace := trace s @ [Get_message]\<rparr>) = (Raised e1, s1) \<Longrightarrow>
           P s (Raised e1, s1)"
    and r_blk: "\<And>s r rs e s1. has_ws s \<Longrightarrow> recvs s = r # rs \<Longrightarrow>
           (case r of Inl e \<Rightarrow> Inl e | Inr text \<Rightarrow> lds text) = Inl e \<Longrightarrow>
           e \<in> set recon_errors \<Longrightarrow>
           connect fx 1000 (s\<lparr>recvs := rs, trace := trace s @ [Get_message]\<rparr>) = (Blocked, s1) \<Longrightarrow>
           P s (Blocked, s1)"
  shows "P s (recv_msg fx lds s)"
proof (induction "length (recvs s) + length (closes s)" arbitrary: s rule: less_induct)
  case less
  note IH = less
  show ?case
  proof (cases "has_ws s")
    case False
    then show ?thesis using no_ws by (simp add: recv_msg_no_ws)
  next
    case ws: True
    show ?thesis
    proof (cases "recvs s")
      case Nil
      with ws show ?thesis using nil by (simp add: recv_msg_Nil)
    next
      case (Cons r rs)
      show ?thesis
      proof (cases "case r of Inl e \<Rightarrow> Inl e | Inr text \<Rightarrow> lds text")
        case (Inr v)
        from ok[OF ws Cons Inr] recv_msg_ok[OF ws Cons Inr] show ?thesis by simp
      next
        case (Inl e)
        show ?thesis
        proof (cases "e \<in> set recon_errors")
          case False
          from r_raise[OF ws Cons Inl False] recv_msg_raise[OF ws Cons Inl False]
          show ?thesis by simp
        next
          case True
          let ?s' = "s\<lparr>recvs := rs, trace := trace s @ [Get_message]\<rparr>"
          obtain r0 s1 where c: "connect fx 1000 ?s' = (r0, s1)" by (cases "connect fx 1000 ?s'")
          have eq: "recv_msg fx lds s =
              (case r0 of Returns u \<Rightarrow> recv_msg fx lds s1
               | Raised e1 \<Rightarrow> (Raised e1, s1) | Blocked \<Rightarrow> (Blocked, s1))"
            using recv_msg_recon[OF ws Cons Inl True, of fx] c by simp
          show ?thesis
          proof (cases r0)
            case (Returns u)
            with c have c': "connect fx 1000 ?s' = (Returns (), s1)" by simp
            from connect_frame[OF c'] Cons
            have "length (recvs s1) + length (closes s1) < length (recvs s) + length (closes s)"
              by simp
            then have "P s1 (recv_msg fx lds s1)" by (rule IH)
            with r_ret[OF ws Cons Inl True c'] eq Returns show ?thesis by simp
          next
            case (Raised e1)
            with r_rai[OF ws Cons Inl True] c eq show ?thesis by simp
          next
            case Blocked
            with r_blk[OF ws Cons Inl True] c eq show ?thesis by simp
          qed
        qed
      qed
    qed
  qed
qed

lemma send_msg_keeps:
  "warnings (trace (snd (send_msg fx dmp data s))) = warnings (trace s) \<and>
   recvs (snd (send_msg fx dmp data s)) = recvs s \<and>
   (recon_only s \<longrightarrow> recon_only (snd (send_msg fx dmp data s)))"
proof (rule send_msg_rule[where P = "\<lambda>s res.
     warnings (trace (snd res)) = warnings (trace s) \<and> recvs (snd res) = recvs s \<and>
     (recon_only s \<longrightarrow> recon_only (snd res))"], goal_cases)
  case (3 s e s1)
  from connect_keeps[OF 3(4)] connect_frame[OF 3(4)] connect_recon_only[OF 3(4)] 3(5)
  show ?case by simp
next
  case (4 s e e1 s1)
  from connect_keeps[OF 4(4)] connect_frame[OF 4(4)] connect_recon_only[OF 4(4)]
  show ?case by simp
next
  case (5 s e s1)
  from connect_keeps[OF 5(4)] connect_frame[OF 5(4)] connect_recon_only[OF 5(4)]
  show ?case by simp
next
  case (9 s t e rs s1)
  have "recon_only s \<Longrightarrow> recon_only (s\<lparr>sends := rs, trace := trace s @ [Send_message t]\<rparr>)"
    using 9(3) by (simp add: recon_only_def)
  with connect_keeps[OF 9(5)] connect_frame[OF 9(5)] connect_recon_only[OF 9(5)] 9(6)
  show ?case by (auto simp: warnings_append)
next
  case (10 s t e rs e1 s1)
  have "recon_only s \<Longrightarrow> recon_only (s\<lparr>sends := rs, trace := trace s @ [Send_message t]\<rparr>)"
    using 10(3) by (simp add: recon_only_def)
  with connect_keeps[OF 10(5)] connect_frame[OF 10(5)] connect_recon_only[OF 10(5)]
  show ?case by (auto simp: warnings_append)
next
  case (11 s t e rs s1)
  have "recon_only s \<Longrightarrow> recon_only (s\<lparr>sends := rs, trace := trace s @ [Send_message t]\<rparr>)"
    using 11(3) by (simp add: recon_only_def)
  with connect_keeps[OF 11(5)] connect_frame[OF 11(5)] connect_recon_only[OF 11(5)]
  show ?case by (auto simp: warnings_append)
qed (auto simp: warnings_append recon_only_def)

lemma send_msg_Returns:
  "fst (send_msg fx dmp data s) = Returns () \<longrightarrow>
     (\<exists>t. dmp data = Inr t \<and> trace (snd (send_msg fx dmp data s)) \<noteq> [] \<and>
          last (trace (snd (send_msg fx dmp data s))) = Send_message t) \<and>
     (\<exists>es. sends s = map Some es @ None # sends (snd (send_msg fx dmp data s)) \<and>
           set es \<subseteq> set recon_errors)"
proof (rule send_msg_rule[where P = "\<lambda>s res.
     fst res = Returns () \<longrightarrow>
     (\<exists>t. dmp data = Inr t \<and> trace (snd res) \<noteq> [] \<and> last (trace (snd res)) = Send_message t) \<and>
     (\<exists>es. sends s = map Some es @ None # sends (snd res) \<and> set es \<subseteq> set recon_errors)"],
    goal_cases)
  case (3 s e s1)
  from connect_frame[OF 3(4)] 3(5) show ?case by simp
next
  case (7 s t rs)
  have "sends s = map Some [] @ None # rs" using 7(3) by simp
  then show ?case using 7(2) by fastforce
next
  case (9 s t e rs s1)
  show ?case
  proof
    assume r: "fst (send_msg fx dmp data s1) = Returns ()"
    with 9(6) obtain es where es: "sends s1 = map Some es @ None # sends (snd (send_msg fx dmp data s1))"
      "set es \<subseteq> set recon_errors" by blast
    from connect_frame[OF 9(5)] have "sends s1 = rs" by simp
    with es 9(3,4) have "sends s = map Some (e # es) @ None # sends (snd (send_msg fx dmp data s1))"
      "set (e # es) \<subseteq> set recon_errors" by simp_all
    then have "\<exists>es. sends s = map Some es @ None # sends (snd (send_msg fx dmp data s1)) \<and>
           set es \<subseteq> set recon_errors" by blast
    with 9(6) r show "(\<exists>t. dmp data = Inr t \<and> trace (snd (send_msg fx dmp data s1)) \<noteq> [] \<and>
          last (trace (snd (send_msg fx dmp data s1))) = Send_message t) \<and>
     (\<exists>es. sends s = map Some es @ None # sends (snd (send_msg fx dmp data s1)) \<and>
           set es \<subseteq> set recon_errors)" by blast
  qed
qed simp_all

lemma send_msg_Raised:
  "fst (send_msg fx dmp data s) = Raised e \<longrightarrow> recon_only s \<longrightarrow> has_ws s \<longrightarrow>
     (\<exists>t. dmp data = Inr t) \<longrightarrow>
     (\<exists>s0. recon_only s0 \<and> connect fx 1000 s0 = (Raised e, snd (send_msg fx dmp data s)))"
proof (rule send_msg_rule[where P = "\<lambda>s res.
     fst res = Raised e \<longrightarrow> recon_only s \<longrightarrow> has_ws s \<longrightarrow> (\<exists>t. dmp data = Inr t) \<longrightarrow>
     (\<exists>s0. recon_only s0 \<and> connect fx 1000 s0 = (Raised e, snd res))"], goal_cases)
  case (8 s t e' rs)
  then show ?case by (auto simp: recon_only_def)
next
  case (9 s t e' rs s1)
  have "recon_only s \<Longrightarrow> recon_only (s\<lparr>sends := rs, trace := trace s @ [Send_message t]\<rparr>)"
    using 9(3) by (simp add: recon_only_def)
  with connect_recon_only[OF 9(5)] connect_frame[OF 9(5)] 9(6) show ?case by simp
next
  case (10 s t e' rs e1 s1)
  have "recon_only s \<Longrightarrow> recon_only (s\<lparr>sends := rs, trace := trace s @ [Send_message t]\<rparr>)"
    using 10(3) by (simp add: recon_only_def)
  with 10(5) show ?case by auto
qed auto

lemma recv_msg_keeps:
  "warnings (trace (snd (recv_msg fx lds s))) = warnings (trace s) \<and>
   sends (snd (recv_msg fx lds s)) = sends s \<and>
   (recon_only s \<longrightarrow> recon_only (snd (recv_msg fx lds s)))"
proof (rule recv_msg_rule[where P = "\<lambda>s res.
     warnings (trace (snd res)) = warnings (trace s) \<and> sends (snd res) = sends s \<and>
     (recon_only s \<longrightarrow> recon_only (snd res))"], goal_cases)
  case (5 s r rs e s1)
  have "recon_only s \<Longrightarrow> recon_only (s\<lparr>recvs := rs, trace := trace s @ [Get_message]\<rparr>)"
    using 5(2) by (simp add: recon_only_def)
  with connect_keeps[OF 5(5)] connect_frame[OF 5(5)] connect_recon_only[OF 5(5)] 5(6)
  show ?case by (auto simp: warnings_append)
next
  case (6 s r rs e e1 s1)
  have "recon_only s \<Longrightarrow> recon_only (s\<lparr>recvs := rs, trace := trace s @ [Get_message]\<rparr>)"
    using 6(2) by (simp add: recon_only_def)
  with connect_keeps[OF 6(5)] connect_frame[OF 6(5)] connect_recon_only[OF 6(5)]
  show ?case by (auto simp: warnings_append)
next
  case (7 s r rs e s1)
  have "recon_only s \<Longrightarrow> recon_only (s\<lparr>recvs := rs, trace := trace s @ [Get_message]\<rparr>)"
    using 7(2) by (simp add: recon_only_def)
  with connect_keeps[OF 7(5)] connect_frame[OF 7(5)] connect_recon_only[OF 7(5)]
  show ?case by (auto simp: warnings_append)
qed (auto simp: warnings_append recon_only_def)

lemma recv_msg_Returns:
  "fst (recv_msg fx lds s) = Returns v \<longrightarrow>
     (\<exists>pre r. recvs s = pre @ r # recvs (snd (recv_msg fx lds s)) \<and>
        (case r of Inl e \<Rightarrow> Inl e | Inr text \<Rightarrow> lds text) = Inr v \<and>
        (\<forall>p \<in> set pre. \<exists>e \<in> set recon_errors.
            (case p of Inl e \<Rightarrow> Inl e | Inr text \<Rightarrow> lds text) = Inl e))"
proof (rule recv_msg_rule[where P = "\<lambda>s res.
     fst res = Returns v \<longrightarrow>
     (\<exists>pre r. recvs s = pre @ r # recvs (snd res) \<and>
        (case r of Inl e \<Rightarrow> Inl e | Inr text \<Rightarrow> lds text) = Inr v \<and>
        (\<forall>p \<in> set pre. \<exists>e \<in> set recon_errors.
            (case p of Inl e \<Rightarrow> Inl e | Inr text \<Rightarrow> lds text) = Inl e))"], goal_cases)
  case (3 s r rs v')
  show ?case
  proof
    assume "fst (Returns v', s\<lparr>recvs := rs, trace := trace s @ [Get_message]\<rparr>) = Returns v"
    then have "v' = v" by simp
    with 3 have "recvs s = [] @ r # rs \<and>
        (case r of Inl e \<Rightarrow> Inl e | Inr text \<Rightarrow> lds text) = Inr v \<and>
        (\<forall>p \<in> set []. \<exists>e \<in> set recon_errors.
            (case p of Inl e \<Rightarrow> Inl e | Inr text \<Rightarrow> lds text) = Inl e)" by simp
    then show "\<exists>pre r'. recvs s = pre @ r' # recvs (snd (Returns v', s\<lparr>recvs := rs, trace := trace s @ [Get_message]\<rparr>)) \<and>
        (case r' of Inl e \<Rightarrow> Inl e | Inr text \<Rightarrow> lds text) = Inr v \<and>
        (\<forall>p \<in> set pre. \<exists>e \<in> set recon_errors.
            (case p of Inl e \<Rightarrow> Inl e | Inr text \<Rightarrow> lds text) = Inl e)"
      by (intro exI[of _ "[]"] exI[of _ r]) simp
  qed
next
  case (5 s r rs e s1)
  show ?case
  proof
    assume "fst (recv_msg fx lds s1) = Returns v"
    with 5(6) obtain pre r' where p: "recvs s1 = pre @ r' # recvs (snd (recv_msg fx lds s1))"
        "(case r' of Inl e \<Rightarrow> Inl e | Inr text \<Rightarrow> lds text) = Inr v"
        "\<forall>p \<in> set pre. \<exists>e \<in> set recon_errors.
            (case p of Inl e \<Rightarrow> Inl e | Inr text \<Rightarrow> lds text) = Inl e" by blast
    from connect_frame[OF 5(5)] have "recvs s1 = rs" by simp
    with p 5(2,3,4) have "recvs s = (r # pre) @ r' # recvs (snd (recv_msg fx lds s1)) \<and>
        (case r' of Inl e \<Rightarrow> Inl e | Inr text \<Rightarrow> lds text) = Inr v \<and>
        (\<forall>p \<in> set (r # pre). \<exists>e \<in> set recon_errors.
            (case p of Inl e \<Rightarrow> Inl e | Inr text \<Rightarrow> lds text) = Inl e)" by simp
    then show "\<exists>pre r'. recvs s = pre @ r' # recvs (snd (recv_msg fx lds s1)) \<and>
        (case r' of Inl e \<Rightarrow> Inl e | Inr text \<Rightarrow> lds text) = Inr v \<and>
        (\<forall>p \<in> set pre. \<exists>e \<in> set recon_errors.
            (case p of Inl e \<Rightarrow> Inl e | Inr text \<Rightarrow> lds text) = Inl e)" by blast
  qed
qed simp_all

lemma decodable_recvs: "recvs s1 = recvs s \<Longrightarrow> decodable lds s1 = decodable lds s"
  by (simp add: decodable_def)

lemma recv_msg_Raised:
  "fst (recv_msg fx lds s) = Raised e \<longrightarrow> recon_only s \<longrightarrow> has_ws s \<longrightarrow> decodable lds s \<longrightarrow>
     (\<exists>s0. recon_only s0 \<and> connect fx 1000 s0 = (Raised e, snd (recv_msg fx lds s)))"
proof (rule recv_msg_rule[where P = "\<lambda>s res.
     fst res = Raised e \<longrightarrow> recon_only s \<longrightarrow> has_ws s \<longrightarrow> decodable lds s \<longrightarrow>
     (\<exists>s0. recon_only s0 \<and> connect fx 1000 s0 = (Raised e, snd res))"], goal_cases)
  case (4 s r rs e')
  show ?case
  proof (cases r)
    case (Inl x)
    with 4 show ?thesis by (auto simp: recon_only_def)
  next
    case (Inr t)
    with 4 show ?thesis by (auto simp: decodable_def)
  qed
next
  case (5 s r rs e' s1)
  have "recon_only s \<Longrightarrow> recon_only (s\<lparr>recvs := rs, trace := trace s @ [Get_message]\<rparr>)"
    using 5(2) by (simp add: recon_only_def)
  moreover have "decodable lds s \<Longrightarrow> decodable lds s1"
    using 5(2) connect_frame[OF 5(5)] by (simp add: decodable_def)
  ultimately show ?case
    using connect_recon_only[OF 5(5)] connect_frame[OF 5(5)] 5(6) by simp
next
  case (6 s r rs e' e1 s1)
  have "recon_only s \<Longrightarrow> recon_only (s\<lparr>recvs := rs, trace := trace s @ [Get_message]\<rparr>)"
    using 6(2) by (simp add: recon_only_def)
  with 6(5) show ?case by auto
qed auto

section \<open>Recoverable transport errors in send and receive\<close>

text \<open>
  C1, as the code has it. In an environment where nothing but recoverable transport
  errors goes wrong (\<open>recon_only\<close>), with the channel connected, the data
  serialisable and every text that arrives decodable (\<open>decodable\<close>; the decoder
  may reject any other text):
  \<^item> a recoverable error raised by \<open>send_message\<close> or \<open>get_message\<close> does not
    surface: the call runs \<open>_connect()\<close> and, when that returns, tries again;
  \<^item> \<open>send_msg\<close> and \<open>recv_msg\<close> return only when the underlying operation
    has succeeded, every failure before it having been a recoverable error;
  \<^item> an exception that leaves \<open>send_msg\<close> or \<open>recv_msg\<close> is one that a call of
    \<open>_connect()\<close> raised: either the last error after all 1000 attempts of that
    call failed, or an error of \<open>stack.aclose()\<close> other than DisconnectionTimeout
    and RuntimeError, raised before any attempt was made.
\<close>

theorem transport_errors_absorbed:
  assumes "recon_only s" and "has_ws s" and "dmp data = Inr t" and "decodable lds s"
  shows "(\<forall>e rs. sends s = Some e # rs \<longrightarrow>
            send_msg fx dmp data s =
              (case connect fx 1000 (s\<lparr>sends := rs, trace := trace s @ [Send_message t]\<rparr>) of
                 (Returns u, s1) \<Rightarrow> send_msg fx dmp data s1
               | (Raised e1, s1) \<Rightarrow> (Raised e1, s1)
               | (Blocked, s1) \<Rightarrow> (Blocked, s1)))
       \<and> (\<forall>e rs. recvs s = Inl e # rs \<longrightarrow>
            recv_msg fx lds s =
              (case connect fx 1000 (s\<lparr>recvs := rs, trace := trace s @ [Get_message]\<rparr>) of
                 (Returns u, s1) \<Rightarrow> recv_msg fx lds s1
               | (Raised e1, s1) \<Rightarrow> (Raised e1, s1)
               | (Blocked, s1) \<Rightarrow> (Blocked, s1)))
       \<and> (fst (send_msg fx dmp data s) = Returns () \<longrightarrow>
            (\<exists>es. sends s = map Some es @ None # sends (snd (send_msg fx dmp data s))
                  \<and> set es \<subseteq> set recon_errors))
       \<and> (\<forall>v. fst (recv_msg fx lds s) = Returns v \<longrightarrow>
            (\<exists>pre text. recvs s = pre @ Inr text # recvs (snd (recv_msg fx lds s))
                  \<and> lds text = Inr v
                  \<and> (\<forall>p \<in> set pre. \<exists>e \<in> set recon_errors. p = Inl e)))
       \<and> (\<forall>e. fst (send_msg fx dmp data s) = Raised e \<longrightarrow>
            (\<exists>s0. connect fx 1000 s0 = (Raised e, snd (send_msg fx dmp data s))
              \<and> (e \<in> set recon_errors
                    \<and> last (trace (snd (send_msg fx dmp data s))) = Log_exception
                    \<and> count_list (trace (snd (send_msg fx dmp data s))) Open_ws
                        = count_list (trace s0) Open_ws + 1000
                  \<or> e \<noteq> DisconnectionTimeout \<and> e \<noteq> RuntimeError
                    \<and> last (trace (snd (send_msg fx dmp data s))) = Aclose
                    \<and> count_list (trace (snd (send_msg fx dmp data s))) Open_ws
                        = count_list (trace s0) Open_ws)))
       \<and> (\<forall>e. fst (recv_msg fx lds s) = Raised e \<longrightarrow>
            (\<exists>s0. connect fx 1000 s0 = (Raised e, snd (recv_msg fx lds s))
              \<and> (e \<in> set recon_errors
                    \<and> last (trace (snd (recv_msg fx lds s))) = Log_exception
                    \<and> count_list (trace (snd (recv_msg fx lds s))) Open_ws
                        = count_list (trace s0) Open_ws + 1000
                  \<or> e \<noteq> DisconnectionTimeout \<and> e \<noteq> RuntimeError
                    \<and> last (trace (snd (recv_msg fx lds s))) = Aclose
                    \<and> count_list (trace (snd (recv_msg fx lds s))) Open_ws
                        = count_list (trace s0) Open_ws)))"
proof (intro conjI allI impI)
  fix e rs assume sn: "sends s = Some e # rs"
  with assms(1) have "e \<in> set recon_errors" by (simp add: recon_only_def)
  from send_msg_recon[where dmp = dmp and data = data, OF assms(2,3) sn this]
  show "send_msg fx dmp data s =
      (case connect fx 1000 (s\<lparr>sends := rs, trace := trace s @ [Send_message t]\<rparr>) of
         (Returns u, s1) \<Rightarrow> send_msg fx dmp data s1
       | (Raised e1, s1) \<Rightarrow> (Raised e1, s1)
       | (Blocked, s1) \<Rightarrow> (Blocked, s1))" .
next
  fix e rs assume rc: "recvs s = Inl e # rs"
  with assms(1) have "e \<in> set recon_errors" by (simp add: recon_only_def)
  from recv_msg_recon[OF assms(2) rc _ this, of lds fx]
  show "recv_msg fx lds s =
      (case connect fx 1000 (s\<lparr>recvs := rs, trace := trace s @ [Get_message]\<rparr>) of
         (Returns u, s1) \<Rightarrow> recv_msg fx lds s1
       | (Raised e1, s1) \<Rightarrow> (Raised e1, s1)
       | (Blocked, s1) \<Rightarrow> (Blocked, s1))" by simp
next
  assume "fst (send_msg fx dmp data s) = Returns ()"
  with send_msg_Returns[of fx dmp data s]
  show "\<exists>es. sends s = map Some es @ None # sends (snd (send_msg fx dmp data s))
          \<and> set es \<subseteq> set recon_errors" by blast
next
  fix v assume "fst (recv_msg fx lds s) = Returns v"
  with recv_msg_Returns[of fx lds s v]
  obtain pre r where p: "recvs s = pre @ r # recvs (snd (recv_msg fx lds s))"
      "(case r of Inl e \<Rightarrow> Inl e | Inr text \<Rightarrow> lds text) = Inr v"
      "\<forall>p \<in> set pre. \<exists>e \<in> set recon_errors.
          (case p of Inl e \<Rightarrow> Inl e | Inr text \<Rightarrow> lds text) = Inl e" by blast
  from p(2) obtain tx where r: "r = Inr tx" "lds tx = Inr v" by (cases r) auto
  have "\<exists>e \<in> set recon_errors. q = Inl e" if "q \<in> set pre" for q
  proof (cases q)
    case (Inl e)
    with p(3) that show ?thesis by fastforce
  next
    case (Inr x)
    from that p(1) have "q \<in> set (recvs s)" by simp
    with assms(4) Inr have "\<forall>e. lds x \<noteq> Inl e"
      by (auto simp: decodable_def list_all_iff split: sum.splits)
    with p(3) that Inr show ?thesis by fastforce
  qed
  with p(1) r
  show "\<exists>pre text. recvs s = pre @ Inr text # recvs (snd (recv_msg fx lds s))
          \<and> lds text = Inr v \<and> (\<forall>p \<in> set pre. \<exists>e \<in> set recon_errors. p = Inl e)" by blast
next
  fix e assume "fst (send_msg fx dmp data s) = Raised e"
  with send_msg_Raised[of fx dmp data s e] assms
  obtain s0 where s0: "recon_only s0" "connect fx 1000 s0 = (Raised e, snd (send_msg fx dmp data s))"
    by blast
  from connect_Raised[OF s0(2) s0(1)] s0(2)
  show "\<exists>s0. connect fx 1000 s0 = (Raised e, snd (send_msg fx dmp data s))
      \<and> (e \<in> set recon_errors
            \<and> last (trace (snd (send_msg fx dmp data s))) = Log_exception
            \<and> count_list (trace (snd (send_msg fx dmp data s))) Open_ws
                = count_list (trace s0) Open_ws + 1000
          \<or> e \<noteq> DisconnectionTimeout \<and> e \<noteq> RuntimeError
            \<and> last (trace (snd (send_msg fx dmp data s))) = Aclose
            \<and> count_list (trace (snd (send_msg fx dmp data s))) Open_ws
                = count_list (trace s0) Open_ws)" by auto
next
  fix e assume "fst (recv_msg fx lds s) = Raised e"
  with recv_msg_Raised[of fx lds s e] assms
  obtain s0 where s0: "recon_only s0" "connect fx 1000 s0 = (Raised e, snd (recv_msg fx lds s))"
    by blast
  from connect_Raised[OF s0(2) s0(1)] s0(2)
  show "\<exists>s0. connect fx 1000 s0 = (Raised e, snd (recv_msg fx lds s))
      \<and> (e \<in> set recon_errors
            \<and> last (trace (snd (recv_msg fx lds s))) = Log_exception
            \<and> count_list (trace (snd (recv_msg fx lds s))) Open_ws
                = count_list (trace s0) Open_ws + 1000
          \<or> e \<noteq> DisconnectionTimeout \<and> e \<noteq> RuntimeError
            \<and> last (trace (snd (recv_msg fx lds s))) = Aclose
            \<and> count_list (trace (snd (recv_msg fx lds s))) Open_ws
                = count_list (trace s0) Open_ws)" by auto
qed

theorem transport_errors_absorbed_witness:
  "send_msg False (\<lambda>v. Inr ''m'') PNone
      \<lparr>closes = [None], opens = [None], fixtures = [],
       sends = [Some ConnectionClosed, None], recvs = [Inl ConnectionClosed, Inr ''[1]''],
       trace = [], has_ws = True\<rparr>
   = (Returns (),
      \<lparr>closes = [], opens = [], fixtures = [], sends = [],
       recvs = [Inl ConnectionClosed, Inr ''[1]''],
       trace = [Send_message ''m'', Aclose, Open_ws, Log_info, Send_message ''m''],
       has_ws = True\<rparr>)
   \<and> recv_msg False (\<lambda>x. if x = ''[1]'' then Inr (PList [PInt 1]) else Inl (OtherError ''JSONDecodeError''))
      \<lparr>closes = [None], opens = [None], fixtures = [],
       sends = [Some ConnectionClosed, None], recvs = [Inl ConnectionClosed, Inr ''[1]''],
       trace = [], has_ws = True\<rparr>
   = (Returns (PList [PInt 1]),
      \<lparr>closes = [], opens = [], fixtures = [], sends = [Some ConnectionClosed, None],
       recvs = [],
       trace = [Get_message, Aclose, Open_ws, Log_info, Get_message],
       has_ws = True\<rparr>)"
  using transport_errors_absorbed
          [of "\<lparr>closes = [None], opens = [None], fixtures = [],
       sends = [Some ConnectionClosed, None], recvs = [Inl ConnectionClosed, Inr ''[1]''],
       trace = [], has_ws = True\<rparr>"
              "\<lambda>v. Inr ''m''" PNone "''m''"
              "(\<lambda>x. if x = ''[1]'' then Inr (PList [PInt 1]) else Inl (OtherError ''JSONDecodeError''))" False]
  by (simp add: recon_only_def decodable_def recon_errors_def connect_def close_loop_ok
        attempts_no_fixture send_msg_ok recv_msg_ok)

text \<open>
  The claim as stated fails: \<open>send_message\<close> raises ConnectionClosed, and in the
  reconnect that follows \<open>stack.aclose()\<close> raises ConnectionClosed too, which
  \<open>_connect\<close> does not catch. The error surfaces from \<open>send_msg\<close> although not one
  of the 1000 attempts has been made: nothing was opened.
\<close>

theorem transport_errors_counterexample:
  "send_msg False (\<lambda>v. Inr ''m'') PNone
     \<lparr>closes = [Some ConnectionClosed], opens = [None], fixtures = [],
      sends = [Some ConnectionClosed, None], recvs = [], trace = [], has_ws = True\<rparr>
   = (Raised ConnectionClosed,
      \<lparr>closes = [], opens = [None], fixtures = [], sends = [None], recvs = [],
       trace = [Send_message ''m'', Aclose], has_ws = True\<rparr>)"
  by (simp add: send_msg_recon[where t = "''m''"] recon_errors_def connect_def close_loop_raise)

section \<open>What is sent and what is received\<close>



section \<open>Correlation ids\<close>

lemma json_rpc_send_rpc_id:
  "rpc_id (snd (json_rpc_send c m p st)) = rpc_id st + 1"
  by (simp add: json_rpc_send_def Let_def split: prod.splits outcome.splits)

lemma deliver_rpc_id: "rpc_id (snd (deliver c msg st)) = rpc_id st"
  by (simp add: deliver_def Let_def split: sum.splits option.splits)

lemma recv_task_step_rpc_id: "rpc_id (snd (recv_task_step c st)) = rpc_id st"
  by (simp add: recv_task_step_def deliver_rpc_id split: prod.splits outcome.splits sum.splits)

lemma json_rpc_wait_rpc_id: "rpc_id (snd (json_rpc_wait c n st)) = rpc_id st"
  by (simp add: json_rpc_wait_def Let_def split: option.splits sum.splits)

lemma run_Cons:
  "run c (ev # evs) st =
     (fst (step c ev st) # fst (run c evs (snd (step c ev st))),
      snd (run c evs (snd (step c ev st))))"
  by (simp split: prod.splits)

lemma step_Call:
  "fst (step c (Call m p) st) = Called (fst (json_rpc_send c m p st))"
  "snd (step c (Call m p) st) = snd (json_rpc_send c m p st)"
  by (simp_all split: prod.splits)

lemma step_Inbound:
  "fst (step c Inbound st) = Received (fst (recv_task_step c st))"
  "snd (step c Inbound st) = snd (recv_task_step c st)"
  by (simp_all split: prod.splits)

lemma step_Resume:
  "fst (step c (Resume n) st) = Resumed n (fst (json_rpc_wait c n st))"
  "snd (step c (Resume n) st) = snd (json_rpc_wait c n st)"
  by (simp_all split: prod.splits)


section \<open>Pending slots are deleted\<close>

declare step.simps [simp del]

declare run.simps(2) [simp del]

lemma json_rpc_send_state:
  "ws (snd (json_rpc_send c m p st)) = snd (send_msg False (dumps c) (request_msg (rpc_id st) m p) (ws st))"
  "rpc_results (snd (json_rpc_send c m p st)) =
     (rpc_results st)(rpc_id st \<mapsto> \<lparr>slot_result = None, event_set = False\<rparr>)"
  by (simp_all add: json_rpc_send_def Let_def split: prod.splits outcome.splits)

lemma json_rpc_wait_ws: "ws (snd (json_rpc_wait c n st)) = ws st"
  by (simp add: json_rpc_wait_def Let_def split: option.splits sum.splits)

lemma json_rpc_wait_results:
  "rpc_results (snd (json_rpc_wait c n st)) k \<noteq> None \<Longrightarrow> rpc_results st k \<noteq> None"
  by (simp add: json_rpc_wait_def Let_def split: option.splits sum.splits if_splits)

lemma json_rpc_wait_completes:
  "completes (fst (json_rpc_wait c n st)) \<Longrightarrow>
   rpc_results st n \<noteq> None \<and> rpc_results (snd (json_rpc_wait c n st)) n = None"
  by (auto simp: json_rpc_wait_def Let_def split: option.splits sum.splits if_splits)

lemma deliver_warnings:
  "\<exists>w. warnings (trace (ws (snd (deliver c msg st)))) = warnings (trace (ws st)) @ w"
  by (auto simp: deliver_def Let_def warnings_append split: sum.splits option.splits)

lemma deliver_results:
  "warnings (trace (ws (snd (deliver c msg st)))) = warnings (trace (ws st)) \<Longrightarrow>
   rpc_results (snd (deliver c msg st)) k \<noteq> None \<Longrightarrow> rpc_results st k \<noteq> None"
  by (auto simp: deliver_def Let_def warnings_append split: sum.splits option.splits if_splits)

lemma recv_task_step_cases:
  obtains (stop) s1 where "rpc_results (snd (recv_task_step c st)) = rpc_results st"
      and "ws (snd (recv_task_step c st)) = s1" and "warnings (trace s1) = warnings (trace (ws st))"
  | (deliver) m s1 msg where "recv_msg False (loads c) (ws st) = (Returns m, s1)"
      and "dtype c m = Inr msg" and "recv_task_step c st = deliver c msg (st\<lparr>ws := s1\<rparr>)"
      and "warnings (trace s1) = warnings (trace (ws st))"
proof -
  obtain r s1 where rm: "recv_msg False (loads c) (ws st) = (r, s1)"
    by (cases "recv_msg False (loads c) (ws st)")
  have w: "warnings (trace s1) = warnings (trace (ws st))"
    using recv_msg_keeps[of False "loads c" "ws st"] rm by simp
  show ?thesis
  proof (cases r)
    case (Returns m)
    show ?thesis
    proof (cases "dtype c m")
      case (Inl e)
      with Returns rm w show ?thesis by (intro stop[of s1]) (simp_all add: recv_task_step_def)
    next
      case (Inr msg)
      with Returns rm w show ?thesis by (intro deliver[of m s1 msg]) (simp_all add: recv_task_step_def)
    qed
  next
    case (Raised e)
    with rm w show ?thesis by (intro stop[of s1]) (simp_all add: recv_task_step_def)
  next
    case Blocked
    with rm w show ?thesis by (intro stop[of s1]) (simp_all add: recv_task_step_def)
  qed
qed

lemma recv_task_step_warnings:
  "\<exists>w. warnings (trace (ws (snd (recv_task_step c st)))) = warnings (trace (ws st)) @ w"
proof (cases c st rule: recv_task_step_cases)
  case (stop s1)
  then show ?thesis by simp
next
  case (deliver m s1 msg)
  with deliver_warnings[of c msg "st\<lparr>ws := s1\<rparr>"] show ?thesis by simp
qed

lemma recv_task_step_results:
  assumes "warnings (trace (ws (snd (recv_task_step c st)))) = warnings (trace (ws st))"
    and "rpc_results (snd (recv_task_step c st)) k \<noteq> None"
  shows "rpc_results st k \<noteq> None"
proof (cases c st rule: recv_task_step_cases)
  case (stop s1)
  with assms show ?thesis by simp
next
  case (deliver m s1 msg)
  with deliver_results[of c msg "st\<lparr>ws := s1\<rparr>" k] assms show ?thesis by simp
qed

lemma step_rpc_id: "rpc_id st \<le> rpc_id (snd (step c ev st))"
  by (cases ev)
     (simp_all add: step_Call step_Inbound step_Resume json_rpc_send_rpc_id
        recv_task_step_rpc_id json_rpc_wait_rpc_id)

lemma step_warnings:
  "\<exists>w. warnings (trace (ws (snd (step c ev st)))) = warnings (trace (ws st)) @ w"
proof (cases ev)
  case (Call m p)
  then show ?thesis
    using send_msg_keeps[of False "dumps c" "request_msg (rpc_id st) m p" "ws st"]
    by (simp add: step_Call json_rpc_send_state)
next
  case Inbound
  then show ?thesis using recv_task_step_warnings[of c st] by (simp add: step_Inbound)
next
  case (Resume n)
  then show ?thesis by (simp add: step_Resume json_rpc_wait_ws)
qed

lemma step_results:
  assumes "warnings (trace (ws (snd (step c ev st)))) = warnings (trace (ws st))"
    and "rpc_results (snd (step c ev st)) k \<noteq> None"
  shows "rpc_results st k \<noteq> None \<or> (k = rpc_id st \<and> rpc_id (snd (step c ev st)) = rpc_id st + 1)"
proof (cases ev)
  case (Call m p)
  with assms(2) show ?thesis
    by (auto simp: step_Call json_rpc_send_state json_rpc_send_rpc_id split: if_splits)
next
  case Inbound
  with assms recv_task_step_results[of c st k] show ?thesis by (simp add: step_Inbound)
next
  case (Resume n)
  with assms(2) json_rpc_wait_results[of c n st k] show ?thesis by (simp add: step_Resume)
qed

lemma run_warnings:
  "\<exists>w. warnings (trace (ws (snd (run c evs st)))) = warnings (trace (ws st)) @ w"
proof (induction evs arbitrary: st)
  case Nil
  then show ?case by simp
next
  case (Cons ev evs)
  from step_warnings[of c ev st] obtain w1 where
    "warnings (trace (ws (snd (step c ev st)))) = warnings (trace (ws st)) @ w1" by blast
  moreover from Cons.IH[of "snd (step c ev st)"] obtain w2 where
    "warnings (trace (ws (snd (run c evs (snd (step c ev st)))))) =
       warnings (trace (ws (snd (step c ev st)))) @ w2" by blast
  ultimately show ?case by (simp add: run_Cons)
qed

lemma run_completed:
  assumes "\<forall>k. rpc_results st k \<noteq> None \<longrightarrow> k < rpc_id st"
    and "warnings (trace (ws (snd (run c evs st)))) = warnings (trace (ws st))"
  shows "(\<forall>n r. Resumed n r \<in> set (fst (run c evs st)) \<longrightarrow> completes r \<longrightarrow>
            rpc_results (snd (run c evs st)) n = None)
       \<and> (\<forall>n. n < rpc_id st \<longrightarrow> rpc_results st n = None \<longrightarrow>
            rpc_results (snd (run c evs st)) n = None)"
  using assms
proof (induction evs arbitrary: st)
  case Nil
  then show ?case by simp
next
  case (Cons ev evs)
  let ?st1 = "snd (step c ev st)"
  let ?fin = "snd (run c evs ?st1)"
  from step_warnings[of c ev st] obtain w1 where
    w1: "warnings (trace (ws ?st1)) = warnings (trace (ws st)) @ w1" by blast
  from run_warnings[of c evs ?st1] obtain w2 where
    w2: "warnings (trace (ws ?fin)) = warnings (trace (ws ?st1)) @ w2" by blast
  from Cons.prems(2) w1 w2 have "w1 = []" "w2 = []" by (simp_all add: run_Cons)
  with w1 w2 have nw1: "warnings (trace (ws ?st1)) = warnings (trace (ws st))"
    and nw2: "warnings (trace (ws ?fin)) = warnings (trace (ws ?st1))" by simp_all
  have inv1: "\<forall>k. rpc_results ?st1 k \<noteq> None \<longrightarrow> k < rpc_id ?st1"
  proof (intro allI impI)
    fix k assume "rpc_results ?st1 k \<noteq> None"
    from step_results[OF nw1 this] Cons.prems(1) step_rpc_id[of st c ev]
    show "k < rpc_id ?st1" by auto
  qed
  from Cons.IH[OF inv1 nw2]
  have IH1: "\<And>n r. Resumed n r \<in> set (fst (run c evs ?st1)) \<Longrightarrow> completes r \<Longrightarrow>
            rpc_results ?fin n = None"
    and IH2: "\<And>n. n < rpc_id ?st1 \<Longrightarrow> rpc_results ?st1 n = None \<Longrightarrow> rpc_results ?fin n = None"
    by blast+
  have keep: "rpc_results ?fin n = None" if "n < rpc_id st" "rpc_results st n = None" for n
  proof -
    have "rpc_results ?st1 n = None"
    proof (rule ccontr)
      assume "rpc_results ?st1 n \<noteq> None"
      from step_results[OF nw1 this] that show False by simp
    qed
    moreover have "n < rpc_id ?st1" using that(1) step_rpc_id[of st c ev] by simp
    ultimately show ?thesis by (rule IH2[rotated])
  qed
  have compl: "rpc_results ?fin n = None"
    if "Resumed n r \<in> set (fst (run c (ev # evs) st))" "completes r" for n r
  proof -
    from that(1) consider "fst (step c ev st) = Resumed n r"
      | "Resumed n r \<in> set (fst (run c evs ?st1))" by (auto simp: run_Cons)
    then show ?thesis
    proof cases
      case 1
      then obtain ev_n: "ev = Resume n" and r: "r = fst (json_rpc_wait c n st)"
        by (cases ev) (simp_all add: step_Call step_Inbound step_Resume)
      from json_rpc_wait_completes[of c n st] r that(2)
      have a: "rpc_results st n \<noteq> None" and b: "rpc_results ?st1 n = None"
        by (simp_all add: ev_n step_Resume)
      from a Cons.prems(1) have "n < rpc_id st" by simp
      then have "n < rpc_id ?st1" using step_rpc_id[of st c ev] by simp
      then show ?thesis using b by (rule IH2)
    next
      case 2
      then show ?thesis using that(2) by (rule IH1)
    qed
  qed
  from keep compl show ?case by (simp add: run_Cons)
qed

text \<open>
  C9. A call that completes, by returning its response or by raising the exception
  made from the response's error field, has deleted its slot from \<open>rpc_results\<close>
  when it finishes. And in a session, opened with an empty \<open>rpc_results\<close>, in which
  every frame received was matched (no frame was logged as unexpected), after any
  finite run of calls, received frames and resumptions, \<open>rpc_results\<close> has no entry
  for the id of any call that completed.
\<close>

theorem completed_calls_leave_no_slot:
  assumes "open_jsonrpc_session start_id s = (Returns (), st)"
    and "warnings (trace (ws (snd (run c evs st)))) = warnings (trace (ws st))"
  shows "(\<forall>n st0. completes (fst (json_rpc_wait c n st0)) \<longrightarrow>
            rpc_results (snd (json_rpc_wait c n st0)) n = None)
       \<and> (\<forall>n r. Resumed n r \<in> set (fst (run c evs st)) \<longrightarrow> completes r \<longrightarrow>
            rpc_results (snd (run c evs st)) n = None)"
proof -
  from assms(1) have "rpc_results st = Map.empty"
    by (auto simp: open_jsonrpc_session_def split: prod.splits)
  then have "\<forall>k. rpc_results st k \<noteq> None \<longrightarrow> k < rpc_id st" by simp
  from run_completed[OF this assms(2)] json_rpc_wait_completes[of c]
  show ?thesis by blast
qed

theorem completed_calls_leave_no_slot_witness:
  "Resumed 0 (Returns \<lparr>jsonrpc = ''2.0'', id' = 0, result = PStr ''pong'', error = PNone\<rparr>)
     \<in> set (fst (run
        \<lparr>dumps = (\<lambda>v. Inr ''x''), dumps_indent = (\<lambda>v. Inr ''x''),
         dumps_struct = (\<lambda>r. Inl TypeError), loads = (\<lambda>t. Inr (PDict [(''id'', PInt 0)])),
         dtype = (\<lambda>v. Inr \<lparr>jsonrpc = ''2.0'', id' = 0, result = PStr ''pong'', error = PNone\<rparr>)\<rparr>
        [Call ''ping'' PNone, Inbound, Resume 0]
        \<lparr>ws = \<lparr>closes = [], opens = [], fixtures = [], sends = [None], recvs = [Inr ''r''],
               trace = [Aclose, Open_ws, Log_info], has_ws = True\<rparr>,
         rpc_id = 0, rpc_results = Map.empty\<rparr>))
   \<and> rpc_results (snd (run
        \<lparr>dumps = (\<lambda>v. Inr ''x''), dumps_indent = (\<lambda>v. Inr ''x''),
         dumps_struct = (\<lambda>r. Inl TypeError), loads = (\<lambda>t. Inr (PDict [(''id'', PInt 0)])),
         dtype = (\<lambda>v. Inr \<lparr>jsonrpc = ''2.0'', id' = 0, result = PStr ''pong'', error = PNone\<rparr>)\<rparr>
        [Call ''ping'' PNone, Inbound, Resume 0]
        \<lparr>ws = \<lparr>closes = [], opens = [], fixtures = [], sends = [None], recvs = [Inr ''r''],
               trace = [Aclose, Open_ws, Log_info], has_ws = True\<rparr>,
         rpc_id = 0, rpc_results = Map.empty\<rparr>)) 0 = None"
proof -
  let ?c = "\<lparr>dumps = (\<lambda>v. Inr ''x''), dumps_indent = (\<lambda>v. Inr ''x''),
         dumps_struct = (\<lambda>r. Inl TypeError), loads = (\<lambda>t. Inr (PDict [(''id'', PInt 0)])),
         dtype = (\<lambda>v. Inr \<lparr>jsonrpc = ''2.0'', id' = 0, result = PStr ''pong'', error = PNone\<rparr>)\<rparr>"
  let ?s = "\<lparr>closes = [None], opens = [None], fixtures = [], sends = [None], recvs = [Inr ''r''],
         trace = [], has_ws = False\<rparr>"
  let ?st = "\<lparr>ws = \<lparr>closes = [], opens = [], fixtures = [], sends = [None], recvs = [Inr ''r''],
               trace = [Aclose, Open_ws, Log_info], has_ws = True\<rparr>,
         rpc_id = 0, rpc_results = Map.empty\<rparr>"
  have o: "open_jsonrpc_session 0 ?s = (Returns (), ?st)"
    by (simp add: open_jsonrpc_session_def open_autorecon_ws_def connect_def close_loop_ok
          attempts_no_fixture)
  have r: "run ?c [Call ''ping'' PNone, Inbound, Resume 0] ?st =
      ([Called (Returns 0), Received (Returns ()),
        Resumed 0 (Returns \<lparr>jsonrpc = ''2.0'', id' = 0, result = PStr ''pong'', error = PNone\<rparr>)],
       \<lparr>ws = \<lparr>closes = [], opens = [], fixtures = [], sends = [], recvs = [],
               trace = [Aclose, Open_ws, Log_info, Send_message ''x'', Get_message],
               has_ws = True\<rparr>,
        rpc_id = 1, rpc_results = Map.empty\<rparr>)"
    by (simp add: run.simps step.simps json_rpc_send_def Let_def send_msg_ok recv_task_step_def
          recv_msg_ok deliver_def json_rpc_wait_def)
  from completed_calls_leave_no_slot[OF o, of ?c "[Call ''ping'' PNone, Inbound, Resume 0]"] r
  show ?thesis by simp
qed

section \<open>Request frames on the wire\<close>












end
